theory Spec2Isabelle
  imports Main "HOL-Library.Sublist"
begin

section \<open>Data model of the signaling gateway\<close>

text \<open>
  The gateway is a single-threaded Node.js program. Its module-level variables
  (\<open>mediasoupWorkers\<close>, \<open>nextMediasoupWorkerIdx\<close>, \<open>queue\<close> and the
  \<open>rooms\<close> map exported by the REST module) form the state. Everything the
  gateway calls but does not define (mediasoup, protoo, Express and its response
  objects, the Room class, the logger, the AwaitQueue, timers) is an external
  collaborator: the calls made on them are recorded in the order they are made, and
  what they return or throw is given by an environment. A property below speaks of
  the calls the gateway makes, not of what a collaborator makes of them.
\<close>

text \<open>A mediasoup Worker handle; the gateway only reads its \<open>pid\<close>.\<close>

datatype worker = Worker (pid: nat)

text \<open>
  A JavaScript \<open>Error\<close> object (an instance of \<open>Error\<close> or of one of its
  subclasses), as far as the gateway reads it: the \<open>status\<close> field, a number
  when it is set, and the strings \<open>name\<close> and \<open>message\<close>.
\<close>

record js_error =
  status :: "int option"
  name :: string
  message :: string

text \<open>
  The values a query parameter of a parsed URL can have, which are also the values
  the gateway uses as room and peer identifiers and as keys of the \<open>rooms\<close> Map:
  \<open>undefined\<close> when the parameter is missing, a string when it is given once, an
  array of strings when it is given several times. A Map compares strings by value
  and arrays by identity, so an array carries the identity of the object:
  \<open>Arr i xs\<close> and \<open>Arr j ys\<close> are the same key only when \<open>i = j\<close>.
  \<open>url.parse\<close> builds a new array for every request, so the arrays of different
  requests have different identities.
\<close>

datatype js_value = Undefined | Str string | Arr nat "string list"

text \<open>
  A Room instance. \<open>room_ref\<close> is the identity of the object (two instances
  built for the same identifier are different objects); the other two fields are the
  arguments \<open>Room.create\<close> was given.
\<close>

record room =
  room_ref :: nat
  room_roomId :: js_value
  room_mediasoupWorker :: "worker option"

text \<open>
  Arguments of the logger's printf-style calls: \<open>ArgStr v\<close> is a value printed
  with \<open>%s\<close>, \<open>ArgNum n\<close> a number printed with \<open>%d\<close>, \<open>ArgErr e\<close> an
  error printed with \<open>%o\<close>.
\<close>

datatype log_arg = ArgStr js_value | ArgNum nat | ArgErr js_error

text \<open>
  The two ways the gateway calls protoo's \<open>reject\<close> callback:
  \<open>reject(400, "...")\<close> and \<open>reject(error)\<close>.
\<close>

datatype reject_args = CodeReason int string | ErrorOnly js_error

text \<open>
  JSON values are kept as text. An object handed to a Room method is the list of its
  fields; a field is \<open>None\<close> when the request did not carry it
  (\<open>undefined\<close>).
\<close>

type_synonym json = string

type_synonym js_object = "(string \<times> json option) list"

datatype room_method =
    getRouterRtpCapabilities
  | createBroadcaster
  | deleteBroadcaster
  | createBroadcasterTransport
  | connectBroadcasterTransport
  | createBroadcasterProducer
  | createBroadcasterConsumer
  | createBroadcasterDataConsumer
  | createBroadcasterDataProducer

text \<open>
  Calls made on external collaborators, in the order they are made. The first
  argument of \<open>Accept\<close>, \<open>Reject\<close> and of the last argument of
  \<open>HandleProtooConnection\<close> identifies the connection request; the first argument
  of \<open>HandleProtooConnection\<close> and \<open>RoomCall\<close> is the room instance the method
  is called on; the first argument of the \<open>Res\<close> calls identifies the REST
  request, that is its \<open>res\<close> object. \<open>ResStatusMessage\<close> is the assignment
  to \<open>res.statusMessage\<close>.
\<close>

datatype effect =
    LoggerInfo string "log_arg list"
  | LoggerWarn string "log_arg list"
  | LoggerError string "log_arg list"
  | Accept nat
  | Reject nat reject_args
  | HandleProtooConnection nat js_value nat
  | RoomCall nat room_method js_object
  | ResStatusMessage nat string
  | ResStatus nat int
  | ResSend nat string
  | ResJson nat json

text \<open>Timers: \<open>setTimeout\<close> (one shot) and \<open>setInterval\<close> (repeating).\<close>

datatype timer_action = ProcessExit int | LogResourceUsage worker | LogRoomsStatus

record timer =
  delay_ms :: nat
  repeating :: bool
  action :: timer_action

text \<open>
  The closure pushed onto the AwaitQueue by the connection handler captures
  \<open>roomId\<close>, \<open>peerId\<close> and the \<open>accept\<close>/\<open>reject\<close> callbacks of
  its connection request (identified by \<open>uow_conn\<close>).
\<close>

record unit_of_work =
  uow_conn :: nat
  uow_roomId :: js_value
  uow_peerId :: js_value

text \<open>
  The state. The first four fields are the module-level variables. The others keep
  what the gateway has handed to the outside: \<open>roomCreateCalls\<close> counts the
  \<open>Room.create\<close> calls made so far, \<open>closeListeners r\<close> lists the identifiers
  captured by the \<open>close\<close> listeners registered on room instance \<open>r\<close>,
  \<open>diedListeners\<close> lists the workers a \<open>died\<close> listener was registered on,
  \<open>timers\<close> the timers set and \<open>effects\<close> the calls made.
\<close>

record gateway =
  mediasoupWorkers :: "worker list"
  nextMediasoupWorkerIdx :: nat
  rooms :: "js_value \<rightharpoonup> room"
  queue :: "unit_of_work list"
  roomCreateCalls :: nat
  closeListeners :: "nat \<Rightarrow> js_value list"
  diedListeners :: "worker list"
  timers :: "timer list"
  effects :: "effect list"

text \<open>
  The external collaborators. \<open>Room_create n w r\<close> is the outcome of the
  \<open>n\<close>-th call of \<open>Room.create({mediasoupWorker: w, roomId: r})\<close>:
  \<open>None\<close> when the promise resolves with a new Room, \<open>Some e\<close> when it
  rejects with \<open>e\<close>. \<open>accept c\<close> and \<open>handleProtooConnection room peerId c\<close>
  say whether these calls throw. \<open>createWorker i\<close> is the outcome of the
  \<open>i\<close>-th \<open>mediasoup.createWorker\<close> call. \<open>roomCall room m obj\<close> is the
  outcome of the Room method \<open>m\<close> called with \<open>obj\<close>, as the route that
  calls it gets it: the value returned (awaited, where the route awaits it), or the
  error thrown (or, awaited, rejected with). \<open>res_status i n\<close>,
  \<open>res_json i data\<close> and \<open>res_send i text\<close> say whether these calls on the
  \<open>res\<close> object of REST request \<open>i\<close> throw.
\<close>

record env =
  Room_create :: "nat \<Rightarrow> worker option \<Rightarrow> js_value \<Rightarrow> js_error option"
  accept :: "nat \<Rightarrow> js_error option"
  handleProtooConnection :: "room \<Rightarrow> js_value \<Rightarrow> nat \<Rightarrow> js_error option"
  createWorker :: "nat \<Rightarrow> js_error + worker"
  roomCall :: "room \<Rightarrow> room_method \<Rightarrow> js_object \<Rightarrow> js_error + json"
  res_status :: "nat \<Rightarrow> int \<Rightarrow> js_error option"
  res_json :: "nat \<Rightarrow> json \<Rightarrow> js_error option"
  res_send :: "nat \<Rightarrow> string \<Rightarrow> js_error option"

section \<open>Worker pool\<close>

text \<open>
  \<open>getMediasoupWorker\<close>: reads \<open>mediasoupWorkers[nextMediasoupWorkerIdx]\<close>
  (\<open>undefined\<close>, here \<open>None\<close>, when the index is out of range), increments the
  index and resets it to 0 when it is equal to the length of the pool.
\<close>

definition getMediasoupWorker :: "gateway \<Rightarrow> worker option \<times> gateway" where
  "getMediasoupWorker s =
     (let worker = (if nextMediasoupWorkerIdx s < length (mediasoupWorkers s)
                    then Some (mediasoupWorkers s ! nextMediasoupWorkerIdx s)
                    else None);
          idx = nextMediasoupWorkerIdx s + 1;
          idx' = (if idx = length (mediasoupWorkers s) then 0 else idx)
      in (worker, s\<lparr>nextMediasoupWorkerIdx := idx'\<rparr>))"

text \<open>\<open>k\<close> consecutive calls, with the workers they return in call order.\<close>

fun getMediasoupWorker_times :: "nat \<Rightarrow> gateway \<Rightarrow> worker option list \<times> gateway" where
  "getMediasoupWorker_times 0 s = ([], s)"
| "getMediasoupWorker_times (Suc k) s =
     (case getMediasoupWorker s of
        (w, s') \<Rightarrow> (case getMediasoupWorker_times k s' of
                      (ws, s'') \<Rightarrow> (w # ws, s'')))"

text \<open>
  \<open>runMediasoupWorkers\<close>: logs, then for \<open>i = 0, ..., numWorkers - 1\<close> awaits
  \<open>mediasoup.createWorker\<close>, registers the \<open>died\<close> listener on the new
  worker, pushes it onto the pool and starts its resource usage interval. A rejected
  \<open>createWorker\<close> rejects the whole startup.
\<close>

fun runMediasoupWorkers_loop :: "env \<Rightarrow> nat list \<Rightarrow> gateway \<Rightarrow> js_error + gateway" where
  "runMediasoupWorkers_loop env [] s = Inr s"
| "runMediasoupWorkers_loop env (i # is) s =
     (case createWorker env i of
        Inl error \<Rightarrow> Inl error
      | Inr worker \<Rightarrow>
          runMediasoupWorkers_loop env is
            (s\<lparr>diedListeners := diedListeners s @ [worker],
               mediasoupWorkers := mediasoupWorkers s @ [worker],
               timers := timers s @
                 [\<lparr>delay_ms = 120000, repeating = True, action = LogResourceUsage worker\<rparr>]\<rparr>))"

definition runMediasoupWorkers :: "env \<Rightarrow> nat \<Rightarrow> gateway \<Rightarrow> js_error + gateway" where
  "runMediasoupWorkers env numWorkers s =
     runMediasoupWorkers_loop env [0..<numWorkers]
       (s\<lparr>effects := effects s @
            [LoggerInfo ''running %d mediasoup Workers...'' [ArgNum numWorkers]]\<rparr>)"

text \<open>
  The listener registered by \<open>worker.on("died", ...)\<close>: logs the death with the
  worker's pid and calls \<open>setTimeout(() => process.exit(1), 2000)\<close>.
\<close>

definition died_listener :: "worker \<Rightarrow> gateway \<Rightarrow> gateway" where
  "died_listener worker s =
     s\<lparr>effects := effects s @
          [LoggerError ''mediasoup Worker died, exiting  in 2 seconds... [pid:%d]''
             [ArgNum (pid worker)]],
       timers := timers s @
          [\<lparr>delay_ms = 2000, repeating = False, action = ProcessExit 1\<rparr>]\<rparr>"

text \<open>A worker emits \<open>died\<close>: every listener registered on that worker runs.\<close>

definition worker_emit_died :: "worker \<Rightarrow> gateway \<Rightarrow> gateway" where
  "worker_emit_died w s = fold died_listener (filter (\<lambda>w'. w' = w) (diedListeners s)) s"

section \<open>Room registry\<close>

text \<open>
  \<open>getOrCreateRoom\<close>: looks \<open>roomId\<close> up in \<open>rooms\<close>; when there is no
  entry it logs, takes the next worker, awaits \<open>Room.create\<close>, and only when that
  resolved stores the room and registers the \<open>close\<close> listener
  \<open>() => rooms.delete(roomId)\<close> on it. A rejected \<open>Room.create\<close> rejects the
  call. The new instance's identity is the number of the \<open>Room.create\<close> call.

  This is the call run from start to finish, with no other event between the lookup
  and the store. \<open>unit_start\<close> and \<open>unit_resume\<close> below cut it at the await.
\<close>

definition getOrCreateRoom :: "env \<Rightarrow> js_value \<Rightarrow> gateway \<Rightarrow> (js_error + room) \<times> gateway" where
  "getOrCreateRoom env roomId s =
     (case rooms s roomId of
        Some room \<Rightarrow> (Inr room, s)
      | None \<Rightarrow>
          (let s1 = s\<lparr>effects := effects s @
                      [LoggerInfo ''creating a new Room [roomId:%s]'' [ArgStr roomId]]\<rparr>;
               (mediasoupWorker, s2) = getMediasoupWorker s1;
               n = roomCreateCalls s2;
               s3 = s2\<lparr>roomCreateCalls := n + 1\<rparr>
           in (case Room_create env n mediasoupWorker roomId of
                 Some error \<Rightarrow> (Inl error, s3)
               | None \<Rightarrow>
                   (let room = \<lparr>room_ref = n, room_roomId = roomId,
                                room_mediasoupWorker = mediasoupWorker\<rparr>;
                        s4 = s3\<lparr>rooms := (rooms s3)(roomId \<mapsto> room)\<rparr>;
                        s5 = s4\<lparr>closeListeners :=
                                 (closeListeners s4)(n := closeListeners s4 n @ [roomId])\<rparr>
                    in (Inr room, s5)))))"

text \<open>
  A room emits \<open>close\<close>: every listener registered on that instance runs, each
  deleting the identifier it captured from \<open>rooms\<close>.
\<close>

definition room_emit_close :: "nat \<Rightarrow> gateway \<Rightarrow> gateway" where
  "room_emit_close r s =
     fold (\<lambda>roomId s'. s'\<lparr>rooms := (rooms s')(roomId := None)\<rparr>) (closeListeners s r) s"

text \<open>
  Calls of \<open>getOrCreateRoom\<close> that run one after the other, each from start to
  finish, with their results in call order.
\<close>

fun getOrCreateRoom_serialized ::
  "env \<Rightarrow> js_value list \<Rightarrow> gateway \<Rightarrow> (js_error + room) list \<times> gateway" where
  "getOrCreateRoom_serialized env [] s = ([], s)"
| "getOrCreateRoom_serialized env (roomId # roomIds) s =
     (case getOrCreateRoom env roomId s of
        (r, s') \<Rightarrow> (case getOrCreateRoom_serialized env roomIds s' of
                      (rs, s'') \<Rightarrow> (r # rs, s'')))"

section \<open>Real-time connection gateway\<close>

text \<open>
  A \<open>connectionrequest\<close> event of the protoo server. \<open>query_roomId\<close> and
  \<open>query_peerId\<close> are \<open>u.query["roomId"]\<close> and \<open>u.query["peerId"]\<close> of the
  request URL parsed by \<open>url.parse(info.request.url, true)\<close>. \<open>info_conn\<close>
  identifies the request, that is its \<open>accept\<close> and \<open>reject\<close> callbacks.
\<close>

record connection_info =
  info_conn :: nat
  query_roomId :: js_value
  query_peerId :: js_value
  remoteAddress :: string
  origin :: string

text \<open>
  JavaScript's \<open>!v\<close> for such a value: true for \<open>undefined\<close> and for the empty
  string, false for every other string and for every array (also the empty one and
  one of empty strings).
\<close>

definition falsy :: "js_value \<Rightarrow> bool" where
  "falsy v = (case v of Undefined \<Rightarrow> True | Str x \<Rightarrow> x = [] | Arr i xs \<Rightarrow> False)"

text \<open>
  The \<open>connectionrequest\<close> handler: rejects with 400 when \<open>roomId\<close> or
  \<open>peerId\<close> is falsy and returns; otherwise logs the request and pushes the unit of
  work onto the queue.
\<close>

definition connectionrequest :: "connection_info \<Rightarrow> gateway \<Rightarrow> gateway" where
  "connectionrequest info s =
     (if falsy (query_roomId info) \<or> falsy (query_peerId info)
      then s\<lparr>effects := effects s @
              [Reject (info_conn info)
                 (CodeReason 400 ''Connection request without roomId and/or peerId'')]\<rparr>
      else
        (let roomId = query_roomId info;
             peerId = query_peerId info;
             s1 = s\<lparr>effects := effects s @
                     [LoggerInfo
                        ''protoo connection request [roomId:%s, peerId:%s, address:%s, origin:%s]''
                        [ArgStr roomId, ArgStr peerId, ArgStr (Str (remoteAddress info)),
                         ArgStr (Str (origin info))]]\<rparr>
         in s1\<lparr>queue := queue s1 @
                 [\<lparr>uow_conn = info_conn info, uow_roomId = roomId, uow_peerId = peerId\<rparr>]\<rparr>))"

text \<open>
  The asynchronous closure pushed onto the queue: awaits \<open>getOrCreateRoom\<close>, calls
  \<open>accept()\<close>, then \<open>room.handleProtooConnection\<close>. The result is the error
  the closure threw, if any; a throw ends the closure where it happens.
\<close>

definition connectionTask :: "env \<Rightarrow> unit_of_work \<Rightarrow> gateway \<Rightarrow> js_error option \<times> gateway" where
  "connectionTask env u s =
     (case getOrCreateRoom env (uow_roomId u) s of
        (Inl error, s1) \<Rightarrow> (Some error, s1)
      | (Inr room, s1) \<Rightarrow>
          (let s2 = s1\<lparr>effects := effects s1 @ [Accept (uow_conn u)]\<rparr>
           in (case accept env (uow_conn u) of
                 Some error \<Rightarrow> (Some error, s2)
               | None \<Rightarrow>
                   (let s3 = s2\<lparr>effects := effects s2 @
                               [HandleProtooConnection (room_ref room) (uow_peerId u)
                                  (uow_conn u)]\<rparr>
                    in (handleProtooConnection env room (uow_peerId u) (uow_conn u), s3)))))"

text \<open>
  The closure with the \<open>.catch\<close> attached to the promise that \<open>queue.push\<close>
  returns: an error is logged and handed to \<open>reject\<close>.
\<close>

definition queuedUnit :: "env \<Rightarrow> unit_of_work \<Rightarrow> gateway \<Rightarrow> gateway" where
  "queuedUnit env u s =
     (case connectionTask env u s of
        (Some error, s') \<Rightarrow>
          s'\<lparr>effects := effects s' @
               [LoggerError ''room creation or room joining failed:%o'' [ArgErr error],
                Reject (uow_conn u) (ErrorOnly error)]\<rparr>
      | (None, s') \<Rightarrow> s')"

text \<open>
  The AwaitQueue runs its pending tasks one at a time, in the order they were pushed,
  each from start to finish. \<open>queueNext\<close> runs the oldest pending task,
  \<open>runQueue\<close> all of them.
\<close>

definition queueNext :: "env \<Rightarrow> gateway \<Rightarrow> gateway" where
  "queueNext env s =
     (case queue s of
        [] \<Rightarrow> s
      | u # us \<Rightarrow> queuedUnit env u (s\<lparr>queue := us\<rparr>))"

fun runUnits :: "env \<Rightarrow> unit_of_work list \<Rightarrow> gateway \<Rightarrow> gateway" where
  "runUnits env [] s = s"
| "runUnits env (u # us) s = runUnits env us (queuedUnit env u s)"

definition runQueue :: "env \<Rightarrow> gateway \<Rightarrow> gateway" where
  "runQueue env s = runUnits env (queue s) (s\<lparr>queue := []\<rparr>)"

text \<open>The room instances on which \<open>handleProtooConnection\<close> was called.\<close>

fun handledRooms :: "effect list \<Rightarrow> nat list" where
  "handledRooms [] = []"
| "handledRooms (HandleProtooConnection r p c # es) = r # handledRooms es"
| "handledRooms (e # es) = handledRooms es"

section \<open>The unit of work and its suspension\<close>

text \<open>
  A unit of work that finds no room is suspended in \<open>await Room.create(...)\<close>,
  and until that promise settles the event loop runs other events: connection
  requests, REST requests, \<open>close\<close> and \<open>died\<close> events. The queue starts no
  other unit meanwhile. Here the unit is cut at that await: \<open>unit_start\<close> runs it
  up to the await, \<open>unit_resume\<close> from there to its end. (\<open>await\<close> of a room
  that was found continues in the same turn of the event loop, before any other
  event.)
\<close>

text \<open>
  The second half of the closure, once it holds the room: \<open>accept()\<close>, then
  \<open>room.handleProtooConnection\<close>.
\<close>

definition joinRoom :: "env \<Rightarrow> unit_of_work \<Rightarrow> room \<Rightarrow> gateway \<Rightarrow> js_error option \<times> gateway" where
  "joinRoom env u room s1 =
     (let s2 = s1\<lparr>effects := effects s1 @ [Accept (uow_conn u)]\<rparr>
      in (case accept env (uow_conn u) of
            Some error \<Rightarrow> (Some error, s2)
          | None \<Rightarrow>
              (let s3 = s2\<lparr>effects := effects s2 @
                          [HandleProtooConnection (room_ref room) (uow_peerId u) (uow_conn u)]\<rparr>
               in (handleProtooConnection env room (uow_peerId u) (uow_conn u), s3))))"

text \<open>The \<open>.catch\<close> of the unit, given how the closure ended.\<close>

definition catchUnit :: "unit_of_work \<Rightarrow> js_error option \<times> gateway \<Rightarrow> gateway" where
  "catchUnit u r =
     (case r of
        (Some error, s') \<Rightarrow>
          s'\<lparr>effects := effects s' @
               [LoggerError ''room creation or room joining failed:%o'' [ArgErr error],
                Reject (uow_conn u) (ErrorOnly error)]\<rparr>
      | (None, s') \<Rightarrow> s')"

text \<open>
  A unit suspended in \<open>Room.create\<close>: the unit, the worker it took and the number
  of its \<open>Room.create\<close> call.
\<close>

record suspended =
  susp_unit :: unit_of_work
  susp_worker :: "worker option"
  susp_call :: nat

text \<open>
  Modelled from the spec: the lifetime of a Room, which ends on the room's own close
  signal (the Room class is not among the sources). A Room is live from the moment
  \<open>Room.create\<close> resolves with it until it signals closure; a room that is not
  live signals nothing, so a room signals closure at most once.

  A node is the gateway together with the unit that is suspended, if any, and the
  rooms that are live, in the order they were built.
\<close>

record node =
  gw :: gateway
  awaiting :: "suspended option"
  liveRooms :: "room list"

definition unit_start :: "env \<Rightarrow> unit_of_work \<Rightarrow> node \<Rightarrow> node" where
  "unit_start env u w =
     (case rooms (gw w) (uow_roomId u) of
        Some room \<Rightarrow> w\<lparr>gw := queuedUnit env u (gw w)\<rparr>
      | None \<Rightarrow>
          (let s1 = (gw w)\<lparr>effects := effects (gw w) @
                      [LoggerInfo ''creating a new Room [roomId:%s]'' [ArgStr (uow_roomId u)]]\<rparr>;
               (mediasoupWorker, s2) = getMediasoupWorker s1;
               n = roomCreateCalls s2;
               s3 = s2\<lparr>roomCreateCalls := n + 1\<rparr>
           in w\<lparr>gw := s3,
                awaiting := Some \<lparr>susp_unit = u, susp_worker = mediasoupWorker, susp_call = n\<rparr>\<rparr>))"

definition unit_resume :: "env \<Rightarrow> suspended \<Rightarrow> node \<Rightarrow> node" where
  "unit_resume env p w =
     (let u = susp_unit p; roomId = uow_roomId u; n = susp_call p; s3 = gw w
      in (case Room_create env n (susp_worker p) roomId of
            Some error \<Rightarrow> w\<lparr>gw := catchUnit u (Some error, s3), awaiting := None\<rparr>
          | None \<Rightarrow>
              (let room = \<lparr>room_ref = n, room_roomId = roomId,
                           room_mediasoupWorker = susp_worker p\<rparr>;
                   s4 = s3\<lparr>rooms := (rooms s3)(roomId \<mapsto> room)\<rparr>;
                   s5 = s4\<lparr>closeListeners :=
                            (closeListeners s4)(n := closeListeners s4 n @ [roomId])\<rparr>
               in w\<lparr>gw := catchUnit u (joinRoom env u room s5),
                    awaiting := None,
                    liveRooms := liveRooms w @ [room]\<rparr>)))"

section \<open>Administrative REST gateway\<close>

datatype endpoint =
    GetRoom
  | PostBroadcasters
  | DeleteBroadcaster
  | PostTransports
  | PostTransportConnect
  | PostTransportProducers
  | PostTransportConsume
  | PostTransportConsumeData
  | PostTransportProduceData

text \<open>
  A request whose method and path match one of the routes. \<open>req_id\<close> identifies
  the request, that is its \<open>res\<close> object; \<open>req_roomId\<close> is the value matched by
  \<open>:roomId\<close>, \<open>req_params\<close> the other path parameters, \<open>req_query\<close> the
  query. \<open>req_body\<close> is what the first middleware, \<open>bodyParser.json()\<close>, makes
  of the request: the parsed body (empty when the request carries none), or the error
  it hands to \<open>next\<close> when it refuses the body.
\<close>

record request =
  req_id :: nat
  req_endpoint :: endpoint
  req_roomId :: string
  req_params :: "string \<rightharpoonup> json"
  req_query :: "string \<rightharpoonup> json"
  req_body :: "js_error + (string \<rightharpoonup> json)"

text \<open>
  \<open>String(error)\<close>, that is \<open>Error.prototype.toString\<close>: the message when the
  name is empty, the name when the message is empty, otherwise the name, a colon, a
  space and the message.
\<close>

definition String_error :: "js_error \<Rightarrow> string" where
  "String_error error =
     (if name error = [] then message error
      else if message error = [] then name error
      else name error @ '': '' @ message error)"

text \<open>
  The value of \<open>error.status || (error.name === "TypeError" ? 400 : 500)\<close>, which
  the error handler assigns to \<open>error.status\<close> and hands to \<open>res.status\<close>:
  a missing status and the number 0 are falsy.
\<close>

definition error_status :: "js_error \<Rightarrow> int" where
  "error_status error =
     (case status error of
        Some n \<Rightarrow> if n \<noteq> 0 then n else (if name error = ''TypeError'' then 400 else 500)
      | None \<Rightarrow> (if name error = ''TypeError'' then 400 else 500))"

text \<open>
  The error handler (the last \<open>expressApp.use\<close>), for an error object (an object
  is truthy, so the \<open>else next()\<close> branch is not taken): it logs a warning with
  \<open>String(error)\<close>, assigns \<open>error.status\<close>, assigns the message to
  \<open>res.statusMessage\<close> and evaluates \<open>res.status(error.status).send(String(error))\<close>:
  \<open>send\<close> is called when \<open>res.status\<close> has returned. Whatever these two calls
  throw leaves the gateway: it goes to Express.
\<close>

definition errorHandler :: "env \<Rightarrow> nat \<Rightarrow> js_error \<Rightarrow> gateway \<Rightarrow> gateway" where
  "errorHandler env i error s =
     (let s1 = s\<lparr>effects := effects s @
                 [LoggerWarn ''Express app %s'' [ArgStr (Str (String_error error))]]\<rparr>;
          n = error_status error;
          s2 = s1\<lparr>effects := effects s1 @ [ResStatusMessage i (message error)]\<rparr>;
          s3 = s2\<lparr>effects := effects s2 @ [ResStatus i n]\<rparr>
      in (case res_status env i n of
            Some thrown \<Rightarrow> s3
          | None \<Rightarrow> s3\<lparr>effects := effects s3 @ [ResSend i (String_error error)]\<rparr>))"

text \<open>
  The \<open>roomId\<close> parameter callback: throws an \<open>Error\<close> with status 404 when
  \<open>rooms\<close> has no such key, otherwise sets \<open>req.room\<close>. The key is the
  string of the path.
\<close>

definition room_not_found :: "string \<Rightarrow> js_error" where
  "room_not_found roomId =
     \<lparr>status = Some 404, name = ''Error'',
      message = ''room with id '' @ [CHR 0x22] @ roomId @ [CHR 0x22] @ '' not found''\<rparr>"

definition param_roomId :: "gateway \<Rightarrow> string \<Rightarrow> js_error + room" where
  "param_roomId s roomId =
     (case rooms s (Str roomId) of
        None \<Rightarrow> Inl (room_not_found roomId)
      | Some room \<Rightarrow> Inr room)"

text \<open>
  The Room method each route calls, with the object it builds from the request and
  its parsed body.
\<close>

definition route :: "request \<Rightarrow> (string \<rightharpoonup> json) \<Rightarrow> room_method \<times> js_object" where
  "route req body =
     (case req_endpoint req of
        GetRoom \<Rightarrow> (getRouterRtpCapabilities, [])
      | PostBroadcasters \<Rightarrow>
          (createBroadcaster,
           [(''id'', body ''id''),
            (''displayName'', body ''displayName''),
            (''device'', body ''device''),
            (''rtpCapabilities'', body ''rtpCapabilities'')])
      | DeleteBroadcaster \<Rightarrow>
          (deleteBroadcaster, [(''broadcasterId'', req_params req ''broadcasterId'')])
      | PostTransports \<Rightarrow>
          (createBroadcasterTransport,
           [(''broadcasterId'', req_params req ''broadcasterId''),
            (''type'', body ''type''),
            (''rtcpMux'', body ''rtcpMux''),
            (''comedia'', body ''comedia''),
            (''sctpCapabilities'', body ''sctpCapabilities'')])
      | PostTransportConnect \<Rightarrow>
          (connectBroadcasterTransport,
           [(''broadcasterId'', req_params req ''broadcasterId''),
            (''transportId'', req_params req ''transportId''),
            (''dtlsParameters'', body ''dtlsParameters'')])
      | PostTransportProducers \<Rightarrow>
          (createBroadcasterProducer,
           [(''broadcasterId'', req_params req ''broadcasterId''),
            (''transportId'', req_params req ''transportId''),
            (''kind'', body ''kind''),
            (''rtpParameters'', body ''rtpParameters'')])
      | PostTransportConsume \<Rightarrow>
          (createBroadcasterConsumer,
           [(''broadcasterId'', req_params req ''broadcasterId''),
            (''transportId'', req_params req ''transportId''),
            (''producerId'', req_query req ''producerId'')])
      | PostTransportConsumeData \<Rightarrow>
          (createBroadcasterDataConsumer,
           [(''broadcasterId'', req_params req ''broadcasterId''),
            (''transportId'', req_params req ''transportId''),
            (''dataProducerId'', body ''dataProducerId'')])
      | PostTransportProduceData \<Rightarrow>
          (createBroadcasterDataProducer,
           [(''broadcasterId'', req_params req ''broadcasterId''),
            (''transportId'', req_params req ''transportId''),
            (''label'', body ''label''),
            (''protocol'', body ''protocol''),
            (''sctpStreamParameters'', body ''sctpStreamParameters''),
            (''appData'', body ''appData'')]))"

text \<open>
  The success answer of a route: \<open>res.status(200).send("broadcaster deleted")\<close>
  for the DELETE route, \<open>res.status(200).json(data)\<close> for the others. The result
  is the error one of the calls threw, if any.
\<close>

definition respond :: "env \<Rightarrow> request \<Rightarrow> json \<Rightarrow> gateway \<Rightarrow> js_error option \<times> gateway" where
  "respond env req data s =
     (let i = req_id req;
          s1 = s\<lparr>effects := effects s @ [ResStatus i 200]\<rparr>
      in (case res_status env i 200 of
            Some error \<Rightarrow> (Some error, s1)
          | None \<Rightarrow>
              if req_endpoint req = DeleteBroadcaster
              then (res_send env i ''broadcaster deleted'',
                    s1\<lparr>effects := effects s1 @ [ResSend i ''broadcaster deleted'']\<rparr>)
              else (res_json env i data,
                    s1\<lparr>effects := effects s1 @ [ResJson i data]\<rparr>)))"

text \<open>
  The Express application on such a request, in the order \<open>createExpressApp\<close>
  registers its parts: \<open>bodyParser.json()\<close>, whose error goes straight to the
  error handler; the \<open>roomId\<close> parameter callback; the route, which calls its Room
  method and answers. Every error (thrown by the callback or the route, or handed to
  \<open>next\<close> by the route's \<open>catch\<close>) goes to the error handler. The
  application reads \<open>rooms\<close> and stores nothing into it.
\<close>

definition expressApp :: "env \<Rightarrow> request \<Rightarrow> gateway \<Rightarrow> gateway" where
  "expressApp env req s =
     (case req_body req of
        Inl error \<Rightarrow> errorHandler env (req_id req) error s
      | Inr body \<Rightarrow>
          (case param_roomId s (req_roomId req) of
             Inl error \<Rightarrow> errorHandler env (req_id req) error s
           | Inr room \<Rightarrow>
               (case route req body of
                  (m, obj) \<Rightarrow>
                    (let s1 = s\<lparr>effects := effects s @ [RoomCall (room_ref room) m obj]\<rparr>
                     in (case roomCall env room m obj of
                           Inl error \<Rightarrow> errorHandler env (req_id req) error s1
                         | Inr data \<Rightarrow>
                             (case respond env req data s1 of
                                (Some error, s2) \<Rightarrow> errorHandler env (req_id req) error s2
                              | (None, s2) \<Rightarrow> s2))))))"

text \<open>
  What a list of calls holds for one REST request: the status codes handed to
  \<open>res.status\<close>, the texts handed to \<open>res.send\<close>; and the Room methods
  called.
\<close>

fun resStatusCalls :: "nat \<Rightarrow> effect list \<Rightarrow> int list" where
  "resStatusCalls i [] = []"
| "resStatusCalls i (ResStatus j n # es) =
     (if j = i then n # resStatusCalls i es else resStatusCalls i es)"
| "resStatusCalls i (e # es) = resStatusCalls i es"

fun resSendCalls :: "nat \<Rightarrow> effect list \<Rightarrow> string list" where
  "resSendCalls i [] = []"
| "resSendCalls i (ResSend j text # es) =
     (if j = i then text # resSendCalls i es else resSendCalls i es)"
| "resSendCalls i (e # es) = resSendCalls i es"


text \<open>
  How the application is handed to the HTTPS server. The REST module declares
  \<open>let expressApp;\<close> and ends with
  \<open>module.exports = { createExpressApp, rooms, expressApp }\<close>: the exported
  property gets the value the variable has when the module is loaded
  (\<open>require_room_js\<close>). \<open>createExpressApp\<close>, called later by \<open>run\<close>,
  assigns the application to the variable (what it registers on the application is
  \<open>expressApp\<close> above; here only the assignment counts). The server module reads
  the exported property once, when it is loaded, and \<open>runHttpsServer\<close> gives
  that value to \<open>https.createServer\<close> as the request listener. \<open>True\<close>
  stands for the application, \<open>False\<close> for \<open>undefined\<close>.
\<close>

record room_js =
  expressApp_variable :: bool
  expressApp_exported :: bool

definition require_room_js :: room_js where
  "require_room_js =
     (let m = \<lparr>expressApp_variable = False, expressApp_exported = False\<rparr>
      in m\<lparr>expressApp_exported := expressApp_variable m\<rparr>)"

definition createExpressApp :: "room_js \<Rightarrow> room_js" where
  "createExpressApp m = m\<lparr>expressApp_variable := True\<rparr>"

definition requestListener :: bool where
  "requestListener = expressApp_exported (createExpressApp require_room_js)"

section \<open>The gateway as an event system\<close>

text \<open>
  After startup the gateway only reacts to events, one at a time: a connection
  request, the queue running its next unit, a room closing, a worker dying, a REST
  request.
\<close>

datatype event =
    ConnectionRequest connection_info
  | QueueNext
  | RoomClose nat
  | WorkerDied worker
  | RestRequest request

definition initial :: gateway where
  "initial =
     \<lparr>mediasoupWorkers = [], nextMediasoupWorkerIdx = 0, rooms = Map.empty, queue = [],
      roomCreateCalls = 0, closeListeners = (\<lambda>_. []), diedListeners = [], timers = [],
      effects = []\<rparr>"

text \<open>
  \<open>run\<close>, the startup: the worker pool, then the Express application, the HTTPS
  server and the protoo server (which only log here: their own failures are not
  modelled), then the interval that logs the status of every room. It starts from the
  module-level initial values.
\<close>

definition run :: "env \<Rightarrow> nat \<Rightarrow> js_error + gateway" where
  "run env numWorkers =
     (case runMediasoupWorkers env numWorkers initial of
        Inl error \<Rightarrow> Inl error
      | Inr s \<Rightarrow>
          Inr (s\<lparr>effects := effects s @
                    [LoggerInfo ''creating Express app...'' [],
                     LoggerInfo ''running an HTTPS server...'' [],
                     LoggerInfo ''running protoo WebSocketServer...'' []],
                 timers := timers s @
                    [\<lparr>delay_ms = 120000, repeating = True, action = LogRoomsStatus\<rparr>]\<rparr>))"

text \<open>
  One event, run from start to finish. A REST request is answered by the request
  listener of the HTTPS server: the Express application when the listener is the
  application, nobody when it is \<open>undefined\<close>. Timer callbacks are not events
  here: the intervals only log, and \<open>process.exit\<close> ends the run.
\<close>

fun step :: "env \<Rightarrow> event \<Rightarrow> gateway \<Rightarrow> gateway" where
  "step env (ConnectionRequest info) s = connectionrequest info s"
| "step env QueueNext s = queueNext env s"
| "step env (RoomClose r) s = room_emit_close r s"
| "step env (WorkerDied w) s = worker_emit_died w s"
| "step env (RestRequest req) s = (if requestListener then expressApp env req s else s)"

fun run_events :: "env \<Rightarrow> event list \<Rightarrow> gateway \<Rightarrow> gateway" where
  "run_events env [] s = s"
| "run_events env (ev # evs) s = run_events env evs (step env ev s)"

text \<open>
  The states of a gateway started with \<open>numWorkers\<close> workers: the state
  \<open>run\<close> ends in, and every state an event leads to from there.
\<close>

inductive reachable :: "env \<Rightarrow> nat \<Rightarrow> gateway \<Rightarrow> bool" for env numWorkers where
  started: "run env numWorkers = Inr s \<Longrightarrow> reachable env numWorkers s"
| stepped: "reachable env numWorkers s \<Longrightarrow> reachable env numWorkers (step env ev s)"

text \<open>
  The registry invariant: every room in \<open>rooms\<close> carries the \<open>close\<close>
  listener that deletes its key, and was built by an earlier \<open>Room.create\<close>
  call.
\<close>

definition registry_ok :: "gateway \<Rightarrow> bool" where
  "registry_ok s \<longleftrightarrow>
     (\<forall>roomId room. rooms s roomId = Some room \<longrightarrow>
        roomId \<in> set (closeListeners s (room_ref room)) \<and> room_ref room < roomCreateCalls s)"

section \<open>The gateway with the await of Room.create as an event\<close>

text \<open>
  The same events, and one more: the promise of the pending \<open>Room.create\<close>
  settles. While a unit is suspended the queue starts no other unit; every other
  event runs as before. A room signals closure while it is live, and is not live
  afterwards.
\<close>

datatype async_event =
    Event event
  | RoomCreateSettled

fun async_step :: "env \<Rightarrow> async_event \<Rightarrow> node \<Rightarrow> node" where
  "async_step env (Event QueueNext) w =
     (case awaiting w of
        Some p \<Rightarrow> w
      | None \<Rightarrow>
          (case queue (gw w) of
             [] \<Rightarrow> w
           | u # us \<Rightarrow> unit_start env u (w\<lparr>gw := (gw w)\<lparr>queue := us\<rparr>\<rparr>)))"
| "async_step env (Event (RoomClose r)) w =
     (if r \<in> set (map room_ref (liveRooms w))
      then w\<lparr>gw := room_emit_close r (gw w),
             liveRooms := filter (\<lambda>room. room_ref room \<noteq> r) (liveRooms w)\<rparr>
      else w)"
| "async_step env (Event ev) w = w\<lparr>gw := step env ev (gw w)\<rparr>"
| "async_step env RoomCreateSettled w =
     (case awaiting w of
        None \<Rightarrow> w
      | Some p \<Rightarrow> unit_resume env p w)"

fun run_async :: "env \<Rightarrow> async_event list \<Rightarrow> node \<Rightarrow> node" where
  "run_async env [] w = w"
| "run_async env (ev # evs) w = run_async env evs (async_step env ev w)"

inductive async_reachable :: "env \<Rightarrow> nat \<Rightarrow> node \<Rightarrow> bool" for env numWorkers where
  async_started: "run env numWorkers = Inr s \<Longrightarrow>
     async_reachable env numWorkers \<lparr>gw = s, awaiting = None, liveRooms = []\<rparr>"
| async_stepped: "async_reachable env numWorkers w \<Longrightarrow>
     async_reachable env numWorkers (async_step env ev w)"

text \<open>
  The invariant of the nodes: every live room is the entry of its identifier in
  \<open>rooms\<close>, carries exactly the \<open>close\<close> listener that deletes that key and
  was built by an earlier \<open>Room.create\<close> call; no two live rooms have the same
  identifier; no listener is registered on an instance that does not exist yet; the
  room a suspended unit waits for is not in \<open>rooms\<close> and carries no listener.
\<close>

definition node_ok :: "node \<Rightarrow> bool" where
  "node_ok w \<longleftrightarrow>
     distinct (map room_roomId (liveRooms w)) \<and>
     (\<forall>room \<in> set (liveRooms w).
        rooms (gw w) (room_roomId room) = Some room \<and>
        closeListeners (gw w) (room_ref room) = [room_roomId room] \<and>
        room_ref room < roomCreateCalls (gw w)) \<and>
     (\<forall>r. roomCreateCalls (gw w) \<le> r \<longrightarrow> closeListeners (gw w) r = []) \<and>
     (\<forall>p. awaiting w = Some p \<longrightarrow>
        rooms (gw w) (uow_roomId (susp_unit p)) = None \<and>
        susp_call p < roomCreateCalls (gw w) \<and>
        closeListeners (gw w) (susp_call p) = [])"

text \<open>
  A burst of connection requests for one room identifier: requests that name this
  identifier and a peer (and so pass the guard of the handler), the queue taking its
  next unit, the pending \<open>Room.create\<close> settling, and REST requests and dying
  workers in between. No room closes meanwhile.
\<close>

fun burst_event :: "string \<Rightarrow> async_event \<Rightarrow> bool" where
  "burst_event roomId (Event (ConnectionRequest info)) =
     (query_roomId info = Str roomId \<and> \<not> falsy (query_roomId info) \<and>
      \<not> falsy (query_peerId info))"
| "burst_event roomId (Event (RoomClose r)) = False"
| "burst_event roomId ev = True"

fun is_request :: "async_event \<Rightarrow> bool" where
  "is_request (Event (ConnectionRequest info)) = True"
| "is_request ev = False"

text \<open>
  The requests of a node that are still under way: the pending units and the
  suspended one.
\<close>

definition pending :: "node \<Rightarrow> nat" where
  "pending w = length (queue (gw w)) + (if awaiting w = None then 0 else 1)"

text \<open>
  Where a burst for \<open>roomId\<close> that began in node \<open>w0\<close> and has seen \<open>K\<close>
  requests stands in node \<open>w\<close>. As long as \<open>rooms\<close> has no entry, no room was
  added and no connection handed over; once it has one, that room is the one room
  added, and every connection handed over since went to it. When \<open>Room.create\<close>
  resolves for this identifier it is called at most once; when \<open>accept\<close> returns
  as well, every request is under way or handed over.
\<close>

definition burst_inv :: "env \<Rightarrow> string \<Rightarrow> node \<Rightarrow> nat \<Rightarrow> node \<Rightarrow> bool" where
  "burst_inv env roomId w0 K w \<longleftrightarrow>
     (\<forall>u \<in> set (queue (gw w)). uow_roomId u = Str roomId) \<and>
     (\<forall>p. awaiting w = Some p \<longrightarrow>
        uow_roomId (susp_unit p) = Str roomId \<and> rooms (gw w) (Str roomId) = None) \<and>
     (rooms (gw w) (Str roomId) = None \<longrightarrow>
        liveRooms w = liveRooms w0 \<and>
        handledRooms (effects (gw w)) = handledRooms (effects (gw w0)) \<and>
        pending w \<le> K \<and>
        ((\<forall>n mw. Room_create env n mw (Str roomId) = None) \<longrightarrow>
           roomCreateCalls (gw w) =
             roomCreateCalls (gw w0) + (if awaiting w = None then 0 else 1) \<and>
           ((\<forall>c. accept env c = None) \<longrightarrow> K = pending w))) \<and>
     (\<forall>room. rooms (gw w) (Str roomId) = Some room \<longrightarrow>
        liveRooms w = liveRooms w0 @ [room] \<and>
        room_roomId room = Str roomId \<and>
        (\<exists>k. pending w + k \<le> K \<and>
           handledRooms (effects (gw w)) =
             handledRooms (effects (gw w0)) @ replicate k (room_ref room) \<and>
           ((\<forall>n mw. Room_create env n mw (Str roomId) = None) \<longrightarrow>
              roomCreateCalls (gw w) = roomCreateCalls (gw w0) + 1 \<and>
              ((\<forall>c. accept env c = None) \<longrightarrow> K = pending w + k))))"

section \<open>Sample configurations\<close>

text \<open>
  A plain error; an environment in which every external call succeeds, one in
  which \<open>Room.create\<close> always rejects, one in which only the first
  \<open>Room.create\<close> rejects and one whose \<open>res.status\<close> refuses codes outside
  100..999; the gateway started with two workers; two peers asking for the same
  room; a request that names no room, and one whose URL is
  \<open>/?roomId=&roomId=&peerId=alice\<close>; a type error; REST requests for a room that
  does not exist.
\<close>

definition boom :: js_error where
  "boom = \<lparr>status = None, name = ''Error'', message = ''boom''\<rparr>"

definition env_ok :: env where
  "env_ok =
     \<lparr>Room_create = (\<lambda>n w r. None),
      accept = (\<lambda>c. None),
      handleProtooConnection = (\<lambda>room p c. None),
      createWorker = (\<lambda>i. Inr (Worker (100 + i))),
      roomCall = (\<lambda>room m obj. Inr ''{}''),
      res_status = (\<lambda>i n. None),
      res_json = (\<lambda>i data. None),
      res_send = (\<lambda>i text. None)\<rparr>"

definition env_create_fails :: env where
  "env_create_fails = env_ok\<lparr>Room_create := (\<lambda>n w r. Some boom)\<rparr>"

definition env_first_create_fails :: env where
  "env_first_create_fails =
     env_ok\<lparr>Room_create := (\<lambda>n w r. if n = 0 then Some boom else None)\<rparr>"

definition range_error :: js_error where
  "range_error = \<lparr>status = None, name = ''RangeError'', message = ''Invalid status code''\<rparr>"

definition env_status_checked :: env where
  "env_status_checked =
     env_ok\<lparr>res_status := (\<lambda>i n. if 100 \<le> n \<and> n \<le> 999 then None else Some range_error)\<rparr>"

definition started :: gateway where
  "started =
     \<lparr>mediasoupWorkers = [Worker 100, Worker 101], nextMediasoupWorkerIdx = 0,
      rooms = Map.empty, queue = [], roomCreateCalls = 0, closeListeners = (\<lambda>_. []),
      diedListeners = [Worker 100, Worker 101],
      timers = [\<lparr>delay_ms = 120000, repeating = True, action = LogResourceUsage (Worker 100)\<rparr>,
                \<lparr>delay_ms = 120000, repeating = True, action = LogResourceUsage (Worker 101)\<rparr>,
                \<lparr>delay_ms = 120000, repeating = True, action = LogRoomsStatus\<rparr>],
      effects = [LoggerInfo ''running %d mediasoup Workers...'' [ArgNum 2],
                 LoggerInfo ''creating Express app...'' [],
                 LoggerInfo ''running an HTTPS server...'' [],
                 LoggerInfo ''running protoo WebSocketServer...'' []]\<rparr>"

definition started_node :: node where
  "started_node = \<lparr>gw = started, awaiting = None, liveRooms = []\<rparr>"

definition alice :: unit_of_work where
  "alice = \<lparr>uow_conn = 1, uow_roomId = Str ''room-A'', uow_peerId = Str ''alice''\<rparr>"

definition bob :: unit_of_work where
  "bob = \<lparr>uow_conn = 2, uow_roomId = Str ''room-A'', uow_peerId = Str ''bob''\<rparr>"

definition alice_request :: connection_info where
  "alice_request =
     \<lparr>info_conn = 1, query_roomId = Str ''room-A'', query_peerId = Str ''alice'',
      remoteAddress = ''10.0.0.1'', origin = ''https://example.org''\<rparr>"

definition bob_request :: connection_info where
  "bob_request =
     \<lparr>info_conn = 2, query_roomId = Str ''room-A'', query_peerId = Str ''bob'',
      remoteAddress = ''10.0.0.2'', origin = ''https://example.org''\<rparr>"

definition nameless_request :: connection_info where
  "nameless_request =
     \<lparr>info_conn = 7, query_roomId = Undefined, query_peerId = Str ''alice'',
      remoteAddress = ''10.0.0.1'', origin = ''https://example.org''\<rparr>"

definition repeated_request :: connection_info where
  "repeated_request =
     \<lparr>info_conn = 8, query_roomId = Arr 8 ['''', ''''], query_peerId = Str ''alice'',
      remoteAddress = ''10.0.0.1'', origin = ''https://example.org''\<rparr>"

definition repeated_request_again :: connection_info where
  "repeated_request_again = repeated_request\<lparr>info_conn := 9, query_roomId := Arr 9 ['''', '''']\<rparr>"

definition room_A :: room where
  "room_A = \<lparr>room_ref = 0, room_roomId = Str ''room-A'',
             room_mediasoupWorker = Some (Worker 100)\<rparr>"

definition type_error :: js_error where
  "type_error = \<lparr>status = None, name = ''TypeError'', message = ''missing body.kind''\<rparr>"




text \<open>
  Two bursts: the two peers asking for \<open>room-A\<close>, the second request arriving
  while the unit of the first is suspended in \<open>Room.create\<close>; and the request
  with the repeated \<open>roomId\<close> parameter sent twice.
\<close>

definition two_peers_burst :: "async_event list" where
  "two_peers_burst =
     [Event (ConnectionRequest alice_request), Event QueueNext,
      Event (ConnectionRequest bob_request), RoomCreateSettled, Event QueueNext]"

definition repeated_roomId_burst :: "async_event list" where
  "repeated_roomId_burst =
     [Event (ConnectionRequest repeated_request), Event QueueNext, RoomCreateSettled,
      Event (ConnectionRequest repeated_request_again), Event QueueNext, RoomCreateSettled]"

section \<open>Properties of the worker pool\<close>

lemma getMediasoupWorker_valid:
  assumes "nextMediasoupWorkerIdx s < length (mediasoupWorkers s)"
  shows "getMediasoupWorker s =
           (Some (mediasoupWorkers s ! nextMediasoupWorkerIdx s),
            s\<lparr>nextMediasoupWorkerIdx :=
                Suc (nextMediasoupWorkerIdx s) mod length (mediasoupWorkers s)\<rparr>)"
  using assms by (auto simp: getMediasoupWorker_def Let_def mod_Suc)

lemma getMediasoupWorker_times_valid:
  assumes "nextMediasoupWorkerIdx s < length (mediasoupWorkers s)"
  shows "getMediasoupWorker_times k s =
           (map (\<lambda>j. Some (mediasoupWorkers s !
                   ((nextMediasoupWorkerIdx s + j) mod length (mediasoupWorkers s)))) [0..<k],
            s\<lparr>nextMediasoupWorkerIdx :=
                (nextMediasoupWorkerIdx s + k) mod length (mediasoupWorkers s)\<rparr>)"
  using assms
proof (induction k arbitrary: s)
  case 0
  then show ?case by simp
next
  case (Suc k)
  let ?n = "length (mediasoupWorkers s)"
  let ?i = "nextMediasoupWorkerIdx s"
  let ?s' = "s\<lparr>nextMediasoupWorkerIdx := Suc ?i mod ?n\<rparr>"
  have step: "getMediasoupWorker s = (Some (mediasoupWorkers s ! ?i), ?s')"
    by (rule getMediasoupWorker_valid [OF Suc.prems])
  have pos: "0 < ?n"
    using Suc.prems by (cases "mediasoupWorkers s") simp_all
  have valid': "nextMediasoupWorkerIdx ?s' < length (mediasoupWorkers ?s')"
    using pos by simp
  have shift: "(Suc ?i mod ?n + j) mod ?n = (?i + Suc j) mod ?n" for j
    by (metis add_Suc add_Suc_right mod_add_left_eq)
  have upt: "[0..<Suc k] = 0 # map Suc [0..<k]"
    by (simp add: upt_conv_Cons map_Suc_upt del: upt_Suc)
  show ?case
    unfolding getMediasoupWorker_times.simps step upt
    using Suc.IH [OF valid'] Suc.prems
    by (simp add: shift comp_def del: upt_Suc)
qed

lemma getMediasoupWorker_update:
  "getMediasoupWorker (s\<lparr>effects := es\<rparr>) =
     (fst (getMediasoupWorker s), (snd (getMediasoupWorker s))\<lparr>effects := es\<rparr>)"
  "getMediasoupWorker (s\<lparr>queue := q\<rparr>) =
     (fst (getMediasoupWorker s), (snd (getMediasoupWorker s))\<lparr>queue := q\<rparr>)"
  by (simp_all add: getMediasoupWorker_def Let_def)

lemma getMediasoupWorker_frame:
  "rooms (snd (getMediasoupWorker s)) = rooms s"
  "queue (snd (getMediasoupWorker s)) = queue s"
  "roomCreateCalls (snd (getMediasoupWorker s)) = roomCreateCalls s"
  "closeListeners (snd (getMediasoupWorker s)) = closeListeners s"
  "diedListeners (snd (getMediasoupWorker s)) = diedListeners s"
  "timers (snd (getMediasoupWorker s)) = timers s"
  "effects (snd (getMediasoupWorker s)) = effects s"
  "mediasoupWorkers (snd (getMediasoupWorker s)) = mediasoupWorkers s"
  by (simp_all add: getMediasoupWorker_def Let_def)

lemma getMediasoupWorker_cursor:
  assumes "nextMediasoupWorkerIdx s < length (mediasoupWorkers s)"
  shows "nextMediasoupWorkerIdx (snd (getMediasoupWorker s)) < length (mediasoupWorkers s)"
  using assms by (auto simp: getMediasoupWorker_def Let_def)

text \<open>
  C2. Round-robin fairness. For a pool of \<open>N \<ge> 1\<close> workers and every cursor that
  indexes a pool slot (the cursor starts at 0, the last conjunct shows that every
  call keeps it in range, and \<open>reachable_cursor\<close> below that every reachable state
  has it in range), \<open>N\<close> consecutive \<open>getMediasoupWorker\<close> calls return the
  pool rotated to the cursor: every slot exactly once, in cyclic pool order. The state
  is then the one the calls started from, so the \<open>(N+1)\<close>-th call returns the same
  worker as the first call. From the initial cursor 0 the \<open>N\<close> calls return exactly
  the pool and the \<open>(N+1)\<close>-th its first worker. After any number \<open>k\<close> of calls
  the pool is the same and the cursor is below \<open>N\<close>.
\<close>

theorem getMediasoupWorker_round_robin:
  assumes "mediasoupWorkers s \<noteq> []"
    and "nextMediasoupWorkerIdx s < length (mediasoupWorkers s)"
  shows "fst (getMediasoupWorker_times (length (mediasoupWorkers s)) s) =
           map Some (rotate (nextMediasoupWorkerIdx s) (mediasoupWorkers s))
       \<and> snd (getMediasoupWorker_times (length (mediasoupWorkers s)) s) = s
       \<and> fst (getMediasoupWorker_times (Suc (length (mediasoupWorkers s))) s)
             ! length (mediasoupWorkers s)
           = fst (getMediasoupWorker s)
       \<and> (if nextMediasoupWorkerIdx s = 0
          then fst (getMediasoupWorker_times (length (mediasoupWorkers s)) s) =
                 map Some (mediasoupWorkers s)
             \<and> fst (getMediasoupWorker_times (Suc (length (mediasoupWorkers s))) s)
                   ! length (mediasoupWorkers s)
                 = Some (hd (mediasoupWorkers s))
          else True)
       \<and> mediasoupWorkers (snd (getMediasoupWorker_times k s)) = mediasoupWorkers s
       \<and> nextMediasoupWorkerIdx (snd (getMediasoupWorker_times k s))
           < length (mediasoupWorkers s)"
proof -
  let ?ws = "mediasoupWorkers s"
  let ?n = "length ?ws"
  let ?i = "nextMediasoupWorkerIdx s"
  note calls = getMediasoupWorker_times_valid [OF assms(2)]
  have pos: "0 < ?n" using assms(1) by simp
  have rot: "fst (getMediasoupWorker_times ?n s) = map Some (rotate ?i ?ws)"
    by (rule nth_equalityI) (simp_all add: calls nth_rotate)
  have same: "snd (getMediasoupWorker_times ?n s) = s"
    using assms(2) by (simp add: calls)
  have "fst (getMediasoupWorker_times (Suc ?n) s) ! ?n = Some (?ws ! ((?i + ?n) mod ?n))"
    unfolding calls fst_conv by (simp del: upt_Suc)
  then have again: "fst (getMediasoupWorker_times (Suc ?n) s) ! ?n = fst (getMediasoupWorker s)"
    using assms(2) by (simp add: getMediasoupWorker_valid)
  have start: "?i = 0 \<Longrightarrow>
          fst (getMediasoupWorker_times ?n s) = map Some ?ws
          \<and> fst (getMediasoupWorker_times (Suc ?n) s) ! ?n = Some (hd ?ws)"
    using rot again assms by (simp add: getMediasoupWorker_valid hd_conv_nth)
  have bound: "nextMediasoupWorkerIdx (snd (getMediasoupWorker_times k s)) < ?n"
    using pos by (simp add: calls)
  have pool: "mediasoupWorkers (snd (getMediasoupWorker_times k s)) = ?ws"
    by (simp add: calls)
  from rot same again start bound pool show ?thesis
    by simp
qed

theorem getMediasoupWorker_round_robin_witness:
  "fst (getMediasoupWorker_times 2 (started\<lparr>nextMediasoupWorkerIdx := 1\<rparr>))
     = [Some (Worker 101), Some (Worker 100)]
   \<and> fst (getMediasoupWorker_times 3 (started\<lparr>nextMediasoupWorkerIdx := 1\<rparr>)) ! 2
     = Some (Worker 101)
   \<and> fst (getMediasoupWorker_times 2 started) = [Some (Worker 100), Some (Worker 101)]
   \<and> fst (getMediasoupWorker_times 3 started) ! 2 = Some (Worker 100)"
proof -
  have pool: "mediasoupWorkers started = [Worker 100, Worker 101]"
    and cursor: "nextMediasoupWorkerIdx started = 0"
    by (simp_all add: started_def)
  have n: "Suc (Suc 0) = 2" "Suc 2 = 3"
    by simp_all
  from getMediasoupWorker_round_robin [of "started\<lparr>nextMediasoupWorkerIdx := 1\<rparr>" 0]
    getMediasoupWorker_round_robin [of started 0]
  show ?thesis
    by (simp add: pool cursor n getMediasoupWorker_def)
qed

section \<open>Properties of the room registry\<close>

lemma getOrCreateRoom_present:
  "rooms s roomId = Some room \<Longrightarrow> getOrCreateRoom env roomId s = (Inr room, s)"
  by (simp add: getOrCreateRoom_def)

lemma getOrCreateRoom_created:
  assumes "rooms s roomId = None"
    and "Room_create env (roomCreateCalls s) (fst (getMediasoupWorker s)) roomId = None"
  shows "getOrCreateRoom env roomId s =
     (Inr \<lparr>room_ref = roomCreateCalls s, room_roomId = roomId,
           room_mediasoupWorker = fst (getMediasoupWorker s)\<rparr>,
      (snd (getMediasoupWorker s))
        \<lparr>effects := effects s @ [LoggerInfo ''creating a new Room [roomId:%s]'' [ArgStr roomId]],
         roomCreateCalls := roomCreateCalls s + 1,
         rooms := (rooms s)(roomId \<mapsto>
            \<lparr>room_ref = roomCreateCalls s, room_roomId = roomId,
             room_mediasoupWorker = fst (getMediasoupWorker s)\<rparr>),
         closeListeners := (closeListeners s)
            (roomCreateCalls s := closeListeners s (roomCreateCalls s) @ [roomId])\<rparr>)"
  using assms
  by (simp add: getOrCreateRoom_def getMediasoupWorker_update getMediasoupWorker_frame Let_def)

lemma getOrCreateRoom_failed:
  assumes "rooms s roomId = None"
    and "Room_create env (roomCreateCalls s) (fst (getMediasoupWorker s)) roomId = Some error"
  shows "getOrCreateRoom env roomId s =
     (Inl error,
      (snd (getMediasoupWorker s))
        \<lparr>effects := effects s @ [LoggerInfo ''creating a new Room [roomId:%s]'' [ArgStr roomId]],
         roomCreateCalls := roomCreateCalls s + 1\<rparr>)"
  using assms
  by (simp add: getOrCreateRoom_def getMediasoupWorker_update getMediasoupWorker_frame Let_def)

lemma getOrCreateRoom_frame:
  "queue (snd (getOrCreateRoom env roomId s)) = queue s"
  "mediasoupWorkers (snd (getOrCreateRoom env roomId s)) = mediasoupWorkers s"
  "diedListeners (snd (getOrCreateRoom env roomId s)) = diedListeners s"
  "timers (snd (getOrCreateRoom env roomId s)) = timers s"
  by (simp_all add: getOrCreateRoom_def getMediasoupWorker_def Let_def
        split: option.splits prod.splits)

lemma getOrCreateRoom_calls_le:
  "roomCreateCalls (snd (getOrCreateRoom env roomId s)) \<le> roomCreateCalls s + 1"
  by (simp add: getOrCreateRoom_def getMediasoupWorker_def Let_def
        split: option.splits prod.splits)

lemma getOrCreateRoom_keeps:
  "rooms s roomId' = Some room \<Longrightarrow>
     rooms (snd (getOrCreateRoom env roomId s)) roomId' = Some room"
  by (auto simp: getOrCreateRoom_def getMediasoupWorker_def Let_def split: option.splits)

lemma getOrCreateRoom_serialized_present:
  assumes "rooms s roomId = Some room"
  shows "getOrCreateRoom_serialized env (replicate k roomId) s = (replicate k (Inr room), s)"
  by (induction k) (simp_all add: getOrCreateRoom_present [OF assms])

lemma getOrCreateRoom_queue:
  "getOrCreateRoom env roomId (s\<lparr>queue := q\<rparr>) =
     (fst (getOrCreateRoom env roomId s), (snd (getOrCreateRoom env roomId s))\<lparr>queue := q\<rparr>)"
  by (simp add: getOrCreateRoom_def getMediasoupWorker_def Let_def split: option.splits)

lemma getOrCreateRoom_cursor:
  assumes "nextMediasoupWorkerIdx s < length (mediasoupWorkers s)"
  shows "nextMediasoupWorkerIdx (snd (getOrCreateRoom env roomId s)) < length (mediasoupWorkers s)"
  using assms
  by (auto simp: getOrCreateRoom_def getMediasoupWorker_def Let_def split: option.splits)

lemma getOrCreateRoom_returns_registered:
  "fst (getOrCreateRoom env roomId s) = Inr room \<Longrightarrow>
     rooms (snd (getOrCreateRoom env roomId s)) roomId = Some room"
proof (cases "rooms s roomId")
  case (Some r)
  then show "fst (getOrCreateRoom env roomId s) = Inr room \<Longrightarrow> ?thesis"
    by (simp add: getOrCreateRoom_present)
next
  case None
  show "fst (getOrCreateRoom env roomId s) = Inr room \<Longrightarrow> ?thesis"
  proof (cases "Room_create env (roomCreateCalls s) (fst (getMediasoupWorker s)) roomId")
    case resolved: None
    show "fst (getOrCreateRoom env roomId s) = Inr room \<Longrightarrow> ?thesis"
      by (simp add: getOrCreateRoom_created [OF None resolved])
  next
    case (Some error)
    show "fst (getOrCreateRoom env roomId s) = Inr room \<Longrightarrow> ?thesis"
      by (simp add: getOrCreateRoom_failed [OF None Some])
  qed
qed

lemma getOrCreateRoom_serialized_results:
  "\<exists>errors room k. fst (getOrCreateRoom_serialized env (replicate K roomId) s) =
        map Inl errors @ replicate k (Inr room)"
proof (induction K arbitrary: s)
  case 0
  show ?case by simp
next
  case (Suc K)
  obtain r s' where first: "getOrCreateRoom env roomId s = (r, s')"
    by (cases "getOrCreateRoom env roomId s")
  show ?case
  proof (cases r)
    case (Inl error)
    from Suc [of s'] obtain errors room k where
      "fst (getOrCreateRoom_serialized env (replicate K roomId) s') =
         map Inl errors @ replicate k (Inr room)"
      by blast
    then have "fst (getOrCreateRoom_serialized env (replicate (Suc K) roomId) s) =
         map Inl (error # errors) @ replicate k (Inr room)"
      by (cases "getOrCreateRoom_serialized env (replicate K roomId) s'") (simp add: first Inl)
    then show ?thesis by blast
  next
    case (Inr room)
    with first getOrCreateRoom_returns_registered [of env roomId s room]
    have "rooms s' roomId = Some room"
      by simp
    then have "fst (getOrCreateRoom_serialized env (replicate (Suc K) roomId) s) =
         map Inl [] @ replicate (Suc K) (Inr room)"
      by (simp add: first Inr getOrCreateRoom_serialized_present)
    then show ?thesis by blast
  qed
qed

text \<open>
  C9. When \<open>roomId\<close> has no entry and \<open>Room.create\<close> rejects with \<open>error\<close>,
  \<open>getOrCreateRoom\<close> rejects with that error, the \<open>rooms\<close> map is the one it was
  (no entry for \<open>roomId\<close> is inserted) and no \<open>close\<close> listener has been
  registered. What the failed call leaves behind is the log line, the advanced worker
  cursor and the count of \<open>Room.create\<close> calls.
\<close>

theorem getOrCreateRoom_create_rejected:
  assumes "rooms s roomId = None"
    and "Room_create env (roomCreateCalls s) (fst (getMediasoupWorker s)) roomId = Some error"
  shows "fst (getOrCreateRoom env roomId s) = Inl error
       \<and> rooms (snd (getOrCreateRoom env roomId s)) = rooms s
       \<and> closeListeners (snd (getOrCreateRoom env roomId s)) = closeListeners s
       \<and> snd (getOrCreateRoom env roomId s) =
           s\<lparr>effects := effects s @
                  [LoggerInfo ''creating a new Room [roomId:%s]'' [ArgStr roomId]],
              nextMediasoupWorkerIdx := nextMediasoupWorkerIdx (snd (getMediasoupWorker s)),
              roomCreateCalls := roomCreateCalls s + 1\<rparr>"
  by (simp add: getOrCreateRoom_failed [OF assms] getMediasoupWorker_frame)

theorem getOrCreateRoom_create_rejected_witness:
  "fst (getOrCreateRoom env_create_fails (Str ''room-A'') started) = Inl boom
   \<and> rooms (snd (getOrCreateRoom env_create_fails (Str ''room-A'') started)) (Str ''room-A'') = None
   \<and> closeListeners (snd (getOrCreateRoom env_create_fails (Str ''room-A'') started)) 0 = []"
  using getOrCreateRoom_create_rejected [of started "Str ''room-A''" env_create_fails boom]
  by (simp add: started_def env_create_fails_def env_ok_def)

section \<open>Properties of the connection gateway\<close>

lemma falsy_simps [simp]:
  "falsy Undefined" "falsy (Str x) = (x = [])" "\<not> falsy (Arr i xs)"
  by (simp_all add: falsy_def)

lemma handledRooms_append:
  "handledRooms (xs @ ys) = handledRooms xs @ handledRooms ys"
  by (induction xs rule: handledRooms.induct) simp_all

lemma connectionrequest_accepted:
  assumes "\<not> falsy (query_roomId info)" and "\<not> falsy (query_peerId info)"
  shows "queue (connectionrequest info s) =
           queue s @ [\<lparr>uow_conn = info_conn info, uow_roomId = query_roomId info,
                      uow_peerId = query_peerId info\<rparr>]"
    and "rooms (connectionrequest info s) = rooms s"
    and "roomCreateCalls (connectionrequest info s) = roomCreateCalls s"
    and "closeListeners (connectionrequest info s) = closeListeners s"
    and "handledRooms (effects (connectionrequest info s)) = handledRooms (effects s)"
  using assms by (simp_all add: connectionrequest_def Let_def handledRooms_append)

text \<open>
  A connection request whose \<open>roomId\<close> or \<open>peerId\<close> is falsy (undefined or
  the empty string) is answered by one call \<open>reject(400, reason)\<close>, where the reason
  text contains both \<open>roomId\<close> and \<open>peerId\<close>; nothing else is called and no unit of
  work is queued for it.
\<close>

lemma connectionrequest_rejects_falsy:
  assumes "falsy (query_roomId info) \<or> falsy (query_peerId info)"
  shows "effects (connectionrequest info s) =
           effects s @
             [Reject (info_conn info)
                (CodeReason 400 ''Connection request without roomId and/or peerId'')]
       \<and> sublist ''roomId'' ''Connection request without roomId and/or peerId''
       \<and> sublist ''peerId'' ''Connection request without roomId and/or peerId''
       \<and> queue (connectionrequest info s) = queue s"
proof -
  have "sublist ''roomId'' ''Connection request without roomId and/or peerId''"
    by code_simp
  moreover have "sublist ''peerId'' ''Connection request without roomId and/or peerId''"
    by code_simp
  ultimately show ?thesis
    using assms by (simp add: connectionrequest_def)
qed

text \<open>
  C5. The handler tests \<open>!roomId || !peerId\<close>, and a parameter that is given twice
  is an array, which is never falsy. The request \<open>/?roomId=&roomId=&peerId=alice\<close>
  has an empty \<open>roomId\<close> parameter (\<open>u.query.roomId\<close> is \<open>['', '']\<close>) and is
  not rejected: the handler logs it and queues its unit of work, and the queue then
  builds a Room under that array as key, accepts the connection and hands it to the
  room. No \<open>reject\<close> is called.
\<close>

theorem connectionrequest_repeated_roomId_not_rejected:
  "falsy (Str [])
   \<and> \<not> falsy (query_roomId repeated_request)
   \<and> queue (connectionrequest repeated_request started) =
       [\<lparr>uow_conn = 8, uow_roomId = Arr 8 ['''', ''''], uow_peerId = Str ''alice''\<rparr>]
   \<and> effects (queueNext env_ok (connectionrequest repeated_request started)) =
       effects started @
         [LoggerInfo ''protoo connection request [roomId:%s, peerId:%s, address:%s, origin:%s]''
            [ArgStr (Arr 8 ['''', '''']), ArgStr (Str ''alice''), ArgStr (Str ''10.0.0.1''),
             ArgStr (Str ''https://example.org'')],
          LoggerInfo ''creating a new Room [roomId:%s]'' [ArgStr (Arr 8 ['''', ''''])],
          Accept 8,
          HandleProtooConnection 0 (Str ''alice'') 8]
   \<and> roomCreateCalls (queueNext env_ok (connectionrequest repeated_request started)) = 1
   \<and> rooms (queueNext env_ok (connectionrequest repeated_request started)) (Arr 8 ['''', '''']) =
       Some \<lparr>room_ref = 0, room_roomId = Arr 8 ['''', ''''],
             room_mediasoupWorker = Some (Worker 100)\<rparr>"
  by (simp add: connectionrequest_def queueNext_def queuedUnit_def connectionTask_def
        getOrCreateRoom_def getMediasoupWorker_def Let_def repeated_request_def started_def
        env_ok_def)

text \<open>
  C10. A connection request rejected for a missing or empty \<open>roomId\<close> or
  \<open>peerId\<close> changes nothing of the gateway state but the record of calls: the queue,
  the round-robin cursor, the number of \<open>Room.create\<close> calls and the room registry
  are what they were.
\<close>

theorem connectionrequest_rejected_frame:
  assumes "falsy (query_roomId info) \<or> falsy (query_peerId info)"
  shows "queue (connectionrequest info s) = queue s
       \<and> nextMediasoupWorkerIdx (connectionrequest info s) = nextMediasoupWorkerIdx s
       \<and> roomCreateCalls (connectionrequest info s) = roomCreateCalls s
       \<and> rooms (connectionrequest info s) = rooms s
       \<and> connectionrequest info s = s\<lparr>effects := effects (connectionrequest info s)\<rparr>"
  using assms by (simp add: connectionrequest_def)

theorem connectionrequest_rejected_frame_witness:
  "queue (connectionrequest (alice_request\<lparr>query_roomId := Str ''''\<rparr>) started) = []
   \<and> nextMediasoupWorkerIdx (connectionrequest (alice_request\<lparr>query_roomId := Str ''''\<rparr>) started)
       = 0
   \<and> rooms (connectionrequest (alice_request\<lparr>query_roomId := Str ''''\<rparr>) started)
       = Map.empty"
  using connectionrequest_rejected_frame [of "alice_request\<lparr>query_roomId := Str ''''\<rparr>" started]
  by (simp add: alice_request_def started_def)

lemma connectionTask_frame:
  "queue (snd (connectionTask env u s)) = queue s"
  "mediasoupWorkers (snd (connectionTask env u s)) = mediasoupWorkers s"
  "diedListeners (snd (connectionTask env u s)) = diedListeners s"
  "timers (snd (connectionTask env u s)) = timers s"
  "roomCreateCalls (snd (connectionTask env u s)) =
     roomCreateCalls (snd (getOrCreateRoom env (uow_roomId u) s))"
  "rooms (snd (connectionTask env u s)) = rooms (snd (getOrCreateRoom env (uow_roomId u) s))"
  "closeListeners (snd (connectionTask env u s)) =
     closeListeners (snd (getOrCreateRoom env (uow_roomId u) s))"
  "nextMediasoupWorkerIdx (snd (connectionTask env u s)) =
     nextMediasoupWorkerIdx (snd (getOrCreateRoom env (uow_roomId u) s))"
  using getOrCreateRoom_frame [of env "uow_roomId u" s]
  by (auto simp: connectionTask_def Let_def split: option.splits prod.splits sum.splits)

lemma connectionTask_error_iff:
  "fst (connectionTask env u s) = Some error \<longleftrightarrow>
     fst (getOrCreateRoom env (uow_roomId u) s) = Inl error
     \<or> (\<exists>room. fst (getOrCreateRoom env (uow_roomId u) s) = Inr room
          \<and> (accept env (uow_conn u) = Some error
             \<or> accept env (uow_conn u) = None
               \<and> handleProtooConnection env room (uow_peerId u) (uow_conn u) = Some error))"
  by (auto simp: connectionTask_def Let_def split: option.splits prod.splits sum.splits)

lemma queuedUnit_frame:
  "rooms (queuedUnit env u s) = rooms (snd (getOrCreateRoom env (uow_roomId u) s))"
  "closeListeners (queuedUnit env u s) = closeListeners (snd (getOrCreateRoom env (uow_roomId u) s))"
  "roomCreateCalls (queuedUnit env u s) = roomCreateCalls (snd (getOrCreateRoom env (uow_roomId u) s))"
  "mediasoupWorkers (queuedUnit env u s) = mediasoupWorkers s"
  "diedListeners (queuedUnit env u s) = diedListeners s"
  "queue (queuedUnit env u s) = queue s"
  using connectionTask_frame [of env u s]
  by (auto simp: queuedUnit_def split: prod.splits option.splits)

lemma connectionTask_queue:
  "connectionTask env u (s\<lparr>queue := q\<rparr>) =
     (fst (connectionTask env u s), (snd (connectionTask env u s))\<lparr>queue := q\<rparr>)"
  by (simp add: connectionTask_def getOrCreateRoom_queue Let_def
        split: prod.splits sum.splits option.splits)

lemma queuedUnit_queue:
  "queuedUnit env u (s\<lparr>queue := q\<rparr>) = (queuedUnit env u s)\<lparr>queue := q\<rparr>"
  by (simp add: queuedUnit_def connectionTask_queue split: prod.splits option.splits)

lemma runUnits_queue:
  "runUnits env us (s\<lparr>queue := q\<rparr>) = (runUnits env us s)\<lparr>queue := q\<rparr>"
  by (induction us arbitrary: s) (simp_all add: queuedUnit_queue)

lemma queuedUnit_cursor:
  "nextMediasoupWorkerIdx (queuedUnit env u s) =
     nextMediasoupWorkerIdx (snd (getOrCreateRoom env (uow_roomId u) s))"
  using connectionTask_frame(8) [of env u s]
  by (auto simp: queuedUnit_def split: prod.splits option.splits)

lemma queueNext_funpow:
  "queue s = us \<Longrightarrow> (queueNext env ^^ length us) s = runUnits env us (s\<lparr>queue := []\<rparr>)"
proof (induction us arbitrary: s)
  case Nil
  then show ?case by simp
next
  case (Cons u us)
  have next1: "queueNext env s = (queuedUnit env u s)\<lparr>queue := us\<rparr>"
    using Cons.prems by (simp add: queueNext_def queuedUnit_queue)
  then have "queue (queueNext env s) = us"
    by simp
  from Cons.IH [OF this]
  have "(queueNext env ^^ length us) (queueNext env s) =
          runUnits env us ((queuedUnit env u s)\<lparr>queue := []\<rparr>)"
    by (simp add: next1)
  then show ?case
    by (simp add: funpow_swap1 queuedUnit_queue)
qed

lemma runQueue_queueNext:
  "runQueue env s = (queueNext env ^^ length (queue s)) s"
  by (simp add: runQueue_def queueNext_funpow)

lemma runQueue_run_events:
  "runQueue env s = run_events env (replicate (length (queue s)) QueueNext) s"
proof -
  have "run_events env (replicate n QueueNext) s = (queueNext env ^^ n) s" for n s
    by (induction n arbitrary: s) (simp_all add: funpow_swap1)
  then show ?thesis
    by (simp add: runQueue_queueNext)
qed

text \<open>
  C7. Whatever throws inside a queued unit of work (\<open>getOrCreateRoom\<close>, that is
  \<open>Room.create\<close>; \<open>accept\<close>; the room's \<open>handleProtooConnection\<close>), the
  \<open>catch\<close> at the queue boundary logs that error and calls \<open>reject\<close> with it for
  the connection request of the unit, as the last two calls of the unit. The unit does
  not push itself again (it leaves the queue as it was, and the queue that ran it as
  its oldest unit holds the younger units only) and \<open>Room.create\<close> has been
  called at most once.
\<close>

theorem queuedUnit_error_rejects:
  assumes "fst (getOrCreateRoom env (uow_roomId u) s) = Inl error
     \<or> (\<exists>room. fst (getOrCreateRoom env (uow_roomId u) s) = Inr room
          \<and> (accept env (uow_conn u) = Some error
             \<or> accept env (uow_conn u) = None
               \<and> handleProtooConnection env room (uow_peerId u) (uow_conn u) = Some error))"
  shows "effects (queuedUnit env u s) =
           effects (snd (connectionTask env u s)) @
             [LoggerError ''room creation or room joining failed:%o'' [ArgErr error],
              Reject (uow_conn u) (ErrorOnly error)]
       \<and> queue (queuedUnit env u s) = queue s
       \<and> queue (queueNext env (s\<lparr>queue := u # us\<rparr>)) = us
       \<and> roomCreateCalls (queuedUnit env u s) \<le> roomCreateCalls s + 1"
proof -
  from assms have "fst (connectionTask env u s) = Some error"
    by (simp only: connectionTask_error_iff)
  then obtain s' where task: "connectionTask env u s = (Some error, s')"
    by (cases "connectionTask env u s") simp
  have "roomCreateCalls s' \<le> roomCreateCalls s + 1" "queue s' = queue s"
    using connectionTask_frame(1,5) [of env u s] getOrCreateRoom_calls_le [of env "uow_roomId u" s]
    by (simp_all add: task)
  moreover have "queue (queueNext env (s\<lparr>queue := u # us\<rparr>)) = us"
    by (simp add: queueNext_def queuedUnit_frame)
  ultimately show ?thesis
    by (simp add: queuedUnit_def task)
qed

theorem queuedUnit_error_rejects_witness:
  "effects (queuedUnit env_create_fails alice started) =
     effects started @
       [LoggerInfo ''creating a new Room [roomId:%s]'' [ArgStr (Str ''room-A'')],
        LoggerError ''room creation or room joining failed:%o'' [ArgErr boom],
        Reject 1 (ErrorOnly boom)]
   \<and> queue (queuedUnit env_create_fails alice started) = []
   \<and> roomCreateCalls (queuedUnit env_create_fails alice started) \<le> 1"
  using queuedUnit_error_rejects [of env_create_fails alice started boom]
  by (simp add: getOrCreateRoom_def connectionTask_def getMediasoupWorker_def Let_def
        started_def env_create_fails_def env_ok_def alice_def)

lemma queuedUnit_present:
  assumes "rooms s (uow_roomId u) = Some room"
  shows "rooms (queuedUnit env u s) = rooms s"
    and "roomCreateCalls (queuedUnit env u s) = roomCreateCalls s"
    and "handledRooms (effects (queuedUnit env u s)) =
           handledRooms (effects s) @ (if accept env (uow_conn u) = None then [room_ref room] else [])"
  using assms
  by (simp_all add: queuedUnit_def connectionTask_def getOrCreateRoom_present Let_def
        handledRooms_append split: option.splits)

lemma queuedUnit_created:
  assumes "rooms s (uow_roomId u) = None"
    and "Room_create env (roomCreateCalls s) (fst (getMediasoupWorker s)) (uow_roomId u) = None"
  shows "rooms (queuedUnit env u s) =
           (rooms s)(uow_roomId u \<mapsto>
              \<lparr>room_ref = roomCreateCalls s, room_roomId = uow_roomId u,
               room_mediasoupWorker = fst (getMediasoupWorker s)\<rparr>)"
    and "roomCreateCalls (queuedUnit env u s) = roomCreateCalls s + 1"
    and "handledRooms (effects (queuedUnit env u s)) =
           handledRooms (effects s) @
             (if accept env (uow_conn u) = None then [roomCreateCalls s] else [])"
  by (simp_all add: queuedUnit_def connectionTask_def getOrCreateRoom_created [OF assms] Let_def
        handledRooms_append getMediasoupWorker_frame split: option.splits)

lemma runUnits_present:
  assumes "rooms s roomId = Some room"
    and "list_all (\<lambda>u. uow_roomId u = roomId) us"
  shows "rooms (runUnits env us s) = rooms s
       \<and> roomCreateCalls (runUnits env us s) = roomCreateCalls s
       \<and> handledRooms (effects (runUnits env us s)) =
           handledRooms (effects s) @
             replicate (length (filter (\<lambda>u. accept env (uow_conn u) = None) us)) (room_ref room)"
  using assms
proof (induction us arbitrary: s)
  case Nil
  then show ?case by simp
next
  case (Cons u us)
  from Cons.prems have here: "rooms s (uow_roomId u) = Some room"
    and rest: "list_all (\<lambda>u. uow_roomId u = roomId) us"
    by simp_all
  note unit = queuedUnit_present [OF here, of env]
  have "rooms (queuedUnit env u s) roomId = Some room"
    using Cons.prems(1) by (simp add: unit(1))
  from Cons.IH [OF this rest] show ?case
    by (simp add: unit)
qed

text \<open>
  The queue run without interruption. Let \<open>roomId\<close> have no entry and let the
  \<open>Room.create\<close> call of the first unit resolve. Then \<open>K \<ge> 1\<close> calls of
  \<open>getOrCreateRoom\<close> for \<open>roomId\<close> that run one after the other all return the
  same new instance, \<open>Room.create\<close> has been called exactly once, and the registry
  holds the instance under \<open>roomId\<close>; and when the \<open>K\<close> pending units of work
  all ask for \<open>roomId\<close>, running the queue calls \<open>Room.create\<close> exactly once
  and every \<open>handleProtooConnection\<close> call of these units is made on that
  instance.
\<close>

lemma runQueue_single_creation:
  assumes "rooms s roomId = None"
    and "Room_create env (roomCreateCalls s) (fst (getMediasoupWorker s)) roomId = None"
    and "0 < K"
    and "length (queue s) = K"
    and "list_all (\<lambda>u. uow_roomId u = roomId) (queue s)"
  shows "(let room = \<lparr>room_ref = roomCreateCalls s, room_roomId = roomId,
                      room_mediasoupWorker = fst (getMediasoupWorker s)\<rparr>
          in fst (getOrCreateRoom_serialized env (replicate K roomId) s) = replicate K (Inr room)
           \<and> roomCreateCalls (snd (getOrCreateRoom_serialized env (replicate K roomId) s))
               = roomCreateCalls s + 1
           \<and> rooms (snd (getOrCreateRoom_serialized env (replicate K roomId) s))
               = (rooms s)(roomId \<mapsto> room)
           \<and> run_events env (replicate K QueueNext) s = runQueue env s
           \<and> roomCreateCalls (runQueue env s) = roomCreateCalls s + 1
           \<and> rooms (runQueue env s) = (rooms s)(roomId \<mapsto> room)
           \<and> handledRooms (effects (runQueue env s)) =
               handledRooms (effects s) @
                 replicate (length (filter (\<lambda>u. accept env (uow_conn u) = None) (queue s)))
                   (room_ref room))"
proof -
  define room where "room = \<lparr>room_ref = roomCreateCalls s, room_roomId = roomId,
                      room_mediasoupWorker = fst (getMediasoupWorker s)\<rparr>"
  obtain k where K: "K = Suc k"
    using assms(3) by (cases K) simp_all
  note first = getOrCreateRoom_created [OF assms(1,2), folded room_def]
  define s1 where "s1 = snd (getOrCreateRoom env roomId s)"
  have step1: "getOrCreateRoom env roomId s = (Inr room, s1)"
    by (simp add: s1_def first)
  have calls1: "roomCreateCalls s1 = roomCreateCalls s + 1"
    and rooms1: "rooms s1 = (rooms s)(roomId \<mapsto> room)"
    by (simp_all add: s1_def first getMediasoupWorker_frame)
  have stored: "rooms s1 roomId = Some room"
    by (simp add: rooms1)
  have serial: "getOrCreateRoom_serialized env (replicate K roomId) s = (replicate K (Inr room), s1)"
    by (simp add: K step1 getOrCreateRoom_serialized_present [OF stored])
  obtain u us where q: "queue s = u # us"
    using assms(3,4) by (cases "queue s") auto
  from assms(5) have u: "uow_roomId u = roomId"
    and us: "list_all (\<lambda>u. uow_roomId u = roomId) us"
    by (simp_all add: q)
  let ?s0 = "s\<lparr>queue := []\<rparr>"
  have absent0: "rooms ?s0 (uow_roomId u) = None"
    using assms(1) by (simp add: u)
  have create0: "Room_create env (roomCreateCalls ?s0) (fst (getMediasoupWorker ?s0)) (uow_roomId u) = None"
    using assms(2) by (simp add: u getMediasoupWorker_update)
  note unit = queuedUnit_created [OF absent0 create0, unfolded u]
  let ?s2 = "queuedUnit env u ?s0"
  have stored2: "rooms ?s2 roomId = Some room"
    by (simp add: unit(1) room_def getMediasoupWorker_update)
  note rest = runUnits_present [OF stored2 us, of env]
  have all: "runQueue env s = runUnits env us ?s2"
    by (simp add: runQueue_def q)
  have "roomCreateCalls (runQueue env s) = roomCreateCalls s + 1"
    by (simp add: all rest unit(2))
  moreover have "rooms (runQueue env s) = (rooms s)(roomId \<mapsto> room)"
    by (simp add: all rest unit(1) room_def getMediasoupWorker_update)
  moreover have "handledRooms (effects (runQueue env s)) =
               handledRooms (effects s) @
                 replicate (length (filter (\<lambda>u. accept env (uow_conn u) = None) (queue s)))
                   (room_ref room)"
    by (simp add: all rest unit(3) q room_def replicate_app_Cons_same)
  moreover have "run_events env (replicate K QueueNext) s = runQueue env s"
    using assms(4) by (simp add: runQueue_run_events)
  ultimately show ?thesis
    unfolding Let_def room_def [symmetric]
    by (simp add: serial calls1 rooms1)
qed

section \<open>Properties of the REST gateway\<close>

lemma resStatusCalls_append:
  "resStatusCalls i (xs @ ys) = resStatusCalls i xs @ resStatusCalls i ys"
  by (induction i xs rule: resStatusCalls.induct) simp_all

lemma resSendCalls_append:
  "resSendCalls i (xs @ ys) = resSendCalls i xs @ resSendCalls i ys"
  by (induction i xs rule: resSendCalls.induct) simp_all


text \<open>The calls of the error handler, in order.\<close>

lemma errorHandler_effects:
  "effects (errorHandler env i error s) =
     effects s @
       [LoggerWarn ''Express app %s'' [ArgStr (Str (String_error error))],
        ResStatusMessage i (message error),
        ResStatus i (error_status error)] @
       (if res_status env i (error_status error) = None
        then [ResSend i (String_error error)] else [])"
  by (simp add: errorHandler_def Let_def split: option.splits)

lemma errorHandler_frame:
  "errorHandler env i error s = s\<lparr>effects := effects (errorHandler env i error s)\<rparr>"
  by (simp add: errorHandler_def Let_def split: option.splits)

lemma respond_frame:
  "snd (respond env req data s) = s\<lparr>effects := effects (snd (respond env req data s))\<rparr>"
  by (simp add: respond_def Let_def split: option.splits)

lemma respond_handledRooms:
  "handledRooms (effects (snd (respond env req data s))) = handledRooms (effects s)"
  by (simp add: respond_def Let_def handledRooms_append split: option.splits)

lemma errorHandler_handledRooms:
  "handledRooms (effects (errorHandler env i error s)) = handledRooms (effects s)"
  by (simp add: errorHandler_effects handledRooms_append)

text \<open>
  The Express application changes nothing of the gateway state but the record of
  calls, and hands no connection to a room.
\<close>

lemma expressApp_frame:
  "expressApp env req s = s\<lparr>effects := effects (expressApp env req s)\<rparr>"
proof (cases "req_body req")
  case (Inl error)
  then show ?thesis
    using errorHandler_frame [of env "req_id req" error s] by (simp add: expressApp_def)
next
  case (Inr body)
  show ?thesis
  proof (cases "param_roomId s (req_roomId req)")
    case (Inl error)
    then show ?thesis
      using errorHandler_frame [of env "req_id req" error s] by (simp add: expressApp_def Inr)
  next
    case found: (Inr room)
    obtain m obj where r: "route req body = (m, obj)"
      by (cases "route req body")
    let ?s1 = "s\<lparr>effects := effects s @ [RoomCall (room_ref room) m obj]\<rparr>"
    show ?thesis
    proof (cases "roomCall env room m obj")
      case (Inl error)
      have "errorHandler env (req_id req) error ?s1 =
              s\<lparr>effects := effects (errorHandler env (req_id req) error ?s1)\<rparr>"
        using errorHandler_frame [of env "req_id req" error ?s1] by simp
      then show ?thesis
        by (simp add: expressApp_def Inr found r Inl Let_def)
    next
      case answered: (Inr data)
      obtain e s2 where a: "respond env req data ?s1 = (e, s2)"
        by (cases "respond env req data ?s1")
      have s2: "s2 = s\<lparr>effects := effects s2\<rparr>"
        using respond_frame [of env req data ?s1] by (simp add: a)
      show ?thesis
      proof (cases e)
        case None
        then show ?thesis
          using s2 by (simp add: expressApp_def Inr found r answered a Let_def)
      next
        case (Some error)
        have "errorHandler env (req_id req) error s2 =
                s\<lparr>effects := effects (errorHandler env (req_id req) error s2)\<rparr>"
          using errorHandler_frame [of env "req_id req" error s2] s2
          by (metis gateway.surjective gateway.update_convs(9))
        then show ?thesis
          by (simp add: expressApp_def Inr found r answered a Some Let_def)
      qed
    qed
  qed
qed

lemma expressApp_fields:
  "mediasoupWorkers (expressApp env req s) = mediasoupWorkers s"
  "nextMediasoupWorkerIdx (expressApp env req s) = nextMediasoupWorkerIdx s"
  "rooms (expressApp env req s) = rooms s"
  "queue (expressApp env req s) = queue s"
  "roomCreateCalls (expressApp env req s) = roomCreateCalls s"
  "closeListeners (expressApp env req s) = closeListeners s"
  "diedListeners (expressApp env req s) = diedListeners s"
  "timers (expressApp env req s) = timers s"
  by (subst expressApp_frame, simp)+

lemma expressApp_handledRooms:
  "handledRooms (effects (expressApp env req s)) = handledRooms (effects s)"
proof -
  have resp: "handledRooms (effects s2) = handledRooms (effects s1)"
    if "respond env req data s1 = (e, s2)" for data s1 e s2
    using respond_handledRooms [of env req data s1] that by simp
  show ?thesis
    by (auto simp: expressApp_def Let_def errorHandler_handledRooms handledRooms_append
          dest: resp split: sum.splits prod.splits option.splits)
qed

text \<open>
  The request listener the HTTPS server is given is \<open>undefined\<close>, not the
  application: the exported property was read before \<open>createExpressApp\<close> assigned
  the variable. A REST request therefore reaches no code of the gateway.
\<close>

lemma requestListener_undefined:
  "\<not> requestListener"
  by (simp add: requestListener_def createExpressApp_def require_room_js_def)

lemma step_RestRequest_unanswered:
  "step env (RestRequest req) s = s"
  by (simp add: requestListener_undefined)

text \<open>
  C3, as the claim states it, fails. For a plain error with the message \<open>boom\<close> the
  status handed to \<open>res.status\<close> is 500 but the text handed to \<open>res.send\<close> is
  \<open>Error: boom\<close>, not the message. For an error whose status field is set to 0
  the status is not that of the field but 500. And when \<open>res.status\<close> refuses the
  status of the field (here 99) by throwing, nothing is sent by the handler.
\<close>

theorem errorHandler_body_counterexample:
  "resStatusCalls 3 (effects (errorHandler env_ok 3 boom started)) = [500]
   \<and> resSendCalls 3 (effects (errorHandler env_ok 3 boom started)) = [''Error: boom'']
   \<and> message boom = ''boom''
   \<and> status (boom\<lparr>status := Some 0\<rparr>) = Some 0
   \<and> resStatusCalls 3 (effects (errorHandler env_ok 3 (boom\<lparr>status := Some 0\<rparr>) started)) = [500]
   \<and> resStatusCalls 3
        (effects (errorHandler env_status_checked 3 (boom\<lparr>status := Some 99\<rparr>) started)) = [99]
   \<and> resSendCalls 3
        (effects (errorHandler env_status_checked 3 (boom\<lparr>status := Some 99\<rparr>) started)) = []"
  by (simp add: errorHandler_effects error_status_def String_error_def boom_def started_def
        env_ok_def env_status_checked_def)

text \<open>
  C3, amended. For every error object that reaches the error handler, the handler
  hands to \<open>res.status\<close> the status field of the error when that is set and not 0,
  otherwise 400 for an error named \<open>TypeError\<close> and 500 for any other; and when
  \<open>res.status\<close> has returned it hands to \<open>res.send\<close> the text
  \<open>String(error)\<close>: name, colon, space, message when neither is empty, which is the
  message only when the name is empty. These are the only \<open>res.status\<close> and
  \<open>res.send\<close> calls the handler makes for the request, and it changes nothing of the
  gateway state.
\<close>

theorem errorHandler_translation:
  "resStatusCalls i (effects (errorHandler env i error s)) =
     resStatusCalls i (effects s) @ [error_status error]
   \<and> (\<forall>n. status error = Some n \<and> n \<noteq> 0 \<longrightarrow> error_status error = n)
   \<and> ((status error = None \<or> status error = Some 0) \<and> name error = ''TypeError'' \<longrightarrow>
        error_status error = 400)
   \<and> ((status error = None \<or> status error = Some 0) \<and> name error \<noteq> ''TypeError'' \<longrightarrow>
        error_status error = 500)
   \<and> resSendCalls i (effects (errorHandler env i error s)) =
       resSendCalls i (effects s) @
         (if res_status env i (error_status error) = None then [String_error error] else [])
   \<and> (name error \<noteq> [] \<and> message error \<noteq> [] \<longrightarrow>
        String_error error = name error @ '': '' @ message error)
   \<and> (String_error error = message error \<longleftrightarrow> name error = [])
   \<and> errorHandler env i error s = s\<lparr>effects := effects (errorHandler env i error s)\<rparr>"
proof -
  have calls: "resStatusCalls i (effects (errorHandler env i error s)) =
                 resStatusCalls i (effects s) @ [error_status error]"
    "resSendCalls i (effects (errorHandler env i error s)) =
       resSendCalls i (effects s) @
         (if res_status env i (error_status error) = None then [String_error error] else [])"
    by (simp_all add: errorHandler_effects resStatusCalls_append resSendCalls_append)
  have code: "\<forall>n. status error = Some n \<and> n \<noteq> 0 \<longrightarrow> error_status error = n"
    "(status error = None \<or> status error = Some 0) \<and> name error = ''TypeError'' \<longrightarrow>
        error_status error = 400"
    "(status error = None \<or> status error = Some 0) \<and> name error \<noteq> ''TypeError'' \<longrightarrow>
        error_status error = 500"
    by (auto simp: error_status_def)
  have "length (name error @ '': '' @ message error) \<noteq> length (message error)"
    by simp
  then have "name error @ '': '' @ message error \<noteq> message error"
    by metis
  then have str: "String_error error = message error \<longleftrightarrow> name error = []"
    "name error \<noteq> [] \<and> message error \<noteq> [] \<longrightarrow>
        String_error error = name error @ '': '' @ message error"
    by (auto simp: String_error_def)
  from calls code str errorHandler_frame [of env i error s] show ?thesis
    by blast
qed

theorem errorHandler_translation_witness:
  "resStatusCalls 3 (effects (errorHandler env_ok 3 type_error started)) = [400]
   \<and> resSendCalls 3 (effects (errorHandler env_ok 3 type_error started)) =
       [''TypeError: missing body.kind'']
   \<and> resStatusCalls 3 (effects (errorHandler env_ok 3 (boom\<lparr>status := Some 403\<rparr>) started)) = [403]
   \<and> resStatusCalls 3 (effects (errorHandler env_ok 3 boom started)) = [500]"
  using errorHandler_translation [of 3 env_ok type_error started]
    errorHandler_translation [of 3 env_ok "boom\<lparr>status := Some 403\<rparr>" started]
    errorHandler_translation [of 3 env_ok boom started]
  by (simp add: type_error_def boom_def started_def env_ok_def)




section \<open>Properties of the event system\<close>

lemma room_emit_close_fold:
  "fold (\<lambda>roomId s'. s'\<lparr>rooms := (rooms s')(roomId := None)\<rparr>) ls s =
     s\<lparr>rooms := (\<lambda>roomId. if roomId \<in> set ls then None else rooms s roomId)\<rparr>"
proof (induction ls arbitrary: s)
  case Nil
  show ?case by simp
next
  case (Cons l ls)
  let ?f = "\<lambda>roomId s'. s'\<lparr>rooms := (rooms s')(roomId := None)\<rparr>"
  have same: "(\<lambda>roomId. if roomId \<in> set ls then None else rooms (?f l s) roomId) =
        (\<lambda>roomId. if roomId \<in> set (l # ls) then None else rooms s roomId)"
    by (auto simp: fun_eq_iff)
  have "fold ?f (l # ls) s = fold ?f ls (?f l s)"
    by (simp only: fold_simps comp_apply)
  also have "\<dots> = (?f l s)\<lparr>rooms := (\<lambda>roomId. if roomId \<in> set ls then None
                                              else rooms (?f l s) roomId)\<rparr>"
    by (rule Cons.IH)
  also have "\<dots> = s\<lparr>rooms := (\<lambda>roomId. if roomId \<in> set (l # ls) then None
                                     else rooms s roomId)\<rparr>"
    unfolding same by simp
  finally show ?case .
qed

lemma room_emit_close_eq:
  "room_emit_close r s =
     s\<lparr>rooms := (\<lambda>roomId. if roomId \<in> set (closeListeners s r) then None else rooms s roomId)\<rparr>"
  by (simp add: room_emit_close_def room_emit_close_fold)

lemma died_listener_funpow:
  "(died_listener w ^^ k) s =
     s\<lparr>effects := effects s @
          replicate k (LoggerError ''mediasoup Worker died, exiting  in 2 seconds... [pid:%d]''
             [ArgNum (pid w)]),
       timers := timers s @
          replicate k \<lparr>delay_ms = 2000, repeating = False, action = ProcessExit 1\<rparr>\<rparr>"
proof (induction k)
  case 0
  show ?case by simp
next
  case (Suc k)
  have "(died_listener w ^^ Suc k) s = died_listener w ((died_listener w ^^ k) s)"
    by simp
  also have "\<dots> = died_listener w
     (s\<lparr>effects := effects s @
          replicate k (LoggerError ''mediasoup Worker died, exiting  in 2 seconds... [pid:%d]''
             [ArgNum (pid w)]),
       timers := timers s @
          replicate k \<lparr>delay_ms = 2000, repeating = False, action = ProcessExit 1\<rparr>\<rparr>)"
    by (simp only: Suc.IH)
  also have "\<dots> = s\<lparr>effects := effects s @
          replicate (Suc k) (LoggerError ''mediasoup Worker died, exiting  in 2 seconds... [pid:%d]''
             [ArgNum (pid w)]),
       timers := timers s @
          replicate (Suc k) \<lparr>delay_ms = 2000, repeating = False, action = ProcessExit 1\<rparr>\<rparr>"
    by (simp add: died_listener_def replicate_append_same)
  finally show ?case .
qed

lemma filter_eq_replicate:
  "filter (\<lambda>w'. w' = w) ws = replicate (count_list ws w) w"
  by (induction ws) simp_all

lemma worker_emit_died_eq:
  "worker_emit_died w s =
     s\<lparr>effects := effects s @
          replicate (count_list (diedListeners s) w)
            (LoggerError ''mediasoup Worker died, exiting  in 2 seconds... [pid:%d]''
               [ArgNum (pid w)]),
       timers := timers s @
          replicate (count_list (diedListeners s) w)
            \<lparr>delay_ms = 2000, repeating = False, action = ProcessExit 1\<rparr>\<rparr>"
  by (simp add: worker_emit_died_def filter_eq_replicate died_listener_funpow)

lemma runMediasoupWorkers_loop_frame:
  assumes "runMediasoupWorkers_loop env is s = Inr s'"
  shows "rooms s' = rooms s \<and> closeListeners s' = closeListeners s
       \<and> roomCreateCalls s' = roomCreateCalls s
       \<and> (diedListeners s = mediasoupWorkers s \<longrightarrow> diedListeners s' = mediasoupWorkers s')"
  using assms
proof (induction "is" arbitrary: s)
  case Nil
  then show ?case by simp
next
  case (Cons i "is")
  show ?case
  proof (cases "createWorker env i")
    case (Inl error)
    with Cons.prems show ?thesis by simp
  next
    case (Inr worker)
    let ?s1 = "s\<lparr>diedListeners := diedListeners s @ [worker],
               mediasoupWorkers := mediasoupWorkers s @ [worker],
               timers := timers s @
                 [\<lparr>delay_ms = 120000, repeating = True, action = LogResourceUsage worker\<rparr>]\<rparr>"
    from Cons.prems Inr have "runMediasoupWorkers_loop env is ?s1 = Inr s'"
      by simp
    from Cons.IH [OF this] show ?thesis
      by simp
  qed
qed

lemma registry_ok_cong:
  assumes "registry_ok s"
    and "rooms s' = rooms s" "closeListeners s' = closeListeners s"
    and "roomCreateCalls s' = roomCreateCalls s"
  shows "registry_ok s'"
  using assms by (simp add: registry_ok_def)

lemma run_invariants:
  assumes "run env numWorkers = Inr s"
  shows "registry_ok s \<and> diedListeners s = mediasoupWorkers s"
proof (cases "runMediasoupWorkers env numWorkers initial")
  case (Inl error)
  with assms show ?thesis by (simp add: run_def)
next
  case (Inr s0)
  from runMediasoupWorkers_loop_frame [OF Inr [unfolded runMediasoupWorkers_def]]
  have "rooms s0 = Map.empty" "diedListeners s0 = mediasoupWorkers s0"
    by (simp_all add: initial_def)
  with assms Inr show ?thesis
    by (auto simp: run_def registry_ok_def)
qed

lemma getOrCreateRoom_registry_ok:
  assumes "registry_ok s"
  shows "registry_ok (snd (getOrCreateRoom env roomId s))"
proof (cases "rooms s roomId")
  case (Some room)
  then show ?thesis using assms by (simp add: getOrCreateRoom_present)
next
  case None
  show ?thesis
  proof (cases "Room_create env (roomCreateCalls s) (fst (getMediasoupWorker s)) roomId")
    case resolved: None
    note new = getOrCreateRoom_created [OF None resolved]
    show ?thesis
      unfolding registry_ok_def
    proof (intro allI impI)
      fix rid r
      assume "rooms (snd (getOrCreateRoom env roomId s)) rid = Some r"
      then have r: "if rid = roomId
                    then r = \<lparr>room_ref = roomCreateCalls s, room_roomId = roomId,
                              room_mediasoupWorker = fst (getMediasoupWorker s)\<rparr>
                    else rooms s rid = Some r"
        by (simp add: new split: if_splits)
      show "rid \<in> set (closeListeners (snd (getOrCreateRoom env roomId s)) (room_ref r))
            \<and> room_ref r < roomCreateCalls (snd (getOrCreateRoom env roomId s))"
      proof (cases "rid = roomId")
        case True
        with r show ?thesis
          by (simp add: new)
      next
        case False
        with r have "rooms s rid = Some r" by simp
        with assms have "rid \<in> set (closeListeners s (room_ref r))"
          and "room_ref r < roomCreateCalls s"
          by (simp_all add: registry_ok_def)
        then show ?thesis
          by (simp add: new)
      qed
    qed
  next
    case (Some error)
    show ?thesis
      using assms
      by (auto simp: getOrCreateRoom_failed [OF None Some] registry_ok_def
            getMediasoupWorker_frame less_Suc_eq)
  qed
qed

lemma step_registry_ok:
  assumes "registry_ok s"
  shows "registry_ok (step env ev s)"
proof (cases ev)
  case (ConnectionRequest info)
  show ?thesis
    by (rule registry_ok_cong [OF assms]) (simp_all add: ConnectionRequest connectionrequest_def Let_def)
next
  case QueueNext
  show ?thesis
  proof (cases "queue s")
    case Nil
    then show ?thesis using assms by (simp add: QueueNext queueNext_def)
  next
    case (Cons u us)
    have "registry_ok (s\<lparr>queue := us\<rparr>)"
      by (rule registry_ok_cong [OF assms]) simp_all
    then have "registry_ok (snd (getOrCreateRoom env (uow_roomId u) (s\<lparr>queue := us\<rparr>)))"
      by (rule getOrCreateRoom_registry_ok)
    then have "registry_ok (queuedUnit env u (s\<lparr>queue := us\<rparr>))"
      by (rule registry_ok_cong) (simp_all add: queuedUnit_frame)
    then show ?thesis by (simp add: QueueNext queueNext_def Cons)
  qed
next
  case (RoomClose r)
  show ?thesis
    using assms by (auto simp: RoomClose room_emit_close_eq registry_ok_def split: if_splits)
next
  case (WorkerDied w)
  show ?thesis
    by (rule registry_ok_cong [OF assms]) (simp_all add: WorkerDied worker_emit_died_eq)
next
  case (RestRequest req)
  show ?thesis
    by (rule registry_ok_cong [OF assms]) (simp_all add: RestRequest expressApp_fields)
qed

lemma step_pool:
  "mediasoupWorkers (step env ev s) = mediasoupWorkers s"
  "diedListeners (step env ev s) = diedListeners s"
  by (cases ev;
      simp add: connectionrequest_def Let_def queueNext_def queuedUnit_frame room_emit_close_eq
        worker_emit_died_eq expressApp_fields split: list.splits)+

lemma reachable_invariants:
  assumes "reachable env numWorkers s"
  shows "registry_ok s \<and> diedListeners s = mediasoupWorkers s"
  using assms
proof (induction rule: reachable.induct)
  case (started s)
  then show ?case by (rule run_invariants)
next
  case (stepped s ev)
  then show ?case by (simp add: step_registry_ok step_pool)
qed

lemma step_cursor:
  assumes "nextMediasoupWorkerIdx s < length (mediasoupWorkers s)"
  shows "nextMediasoupWorkerIdx (step env ev s) < length (mediasoupWorkers (step env ev s))"
proof (cases ev)
  case (ConnectionRequest info)
  with assms show ?thesis by (simp add: connectionrequest_def Let_def)
next
  case QueueNext
  show ?thesis
  proof (cases "queue s")
    case Nil
    with assms show ?thesis by (simp add: QueueNext queueNext_def)
  next
    case (Cons u us)
    from assms have "nextMediasoupWorkerIdx (s\<lparr>queue := us\<rparr>) < length (mediasoupWorkers (s\<lparr>queue := us\<rparr>))"
      by simp
    from getOrCreateRoom_cursor [OF this, of env "uow_roomId u"] show ?thesis
      by (simp add: QueueNext queueNext_def Cons queuedUnit_cursor queuedUnit_frame)
  qed
next
  case (RoomClose r)
  with assms show ?thesis by (simp add: room_emit_close_eq)
next
  case (WorkerDied w)
  with assms show ?thesis by (simp add: worker_emit_died_eq)
next
  case (RestRequest req)
  with assms show ?thesis by (simp add: expressApp_fields split: if_splits)
qed

lemma runMediasoupWorkers_loop_pool:
  assumes "runMediasoupWorkers_loop env is s = Inr s'"
  shows "nextMediasoupWorkerIdx s' = nextMediasoupWorkerIdx s
       \<and> length (mediasoupWorkers s') = length (mediasoupWorkers s) + length is"
  using assms
proof (induction "is" arbitrary: s)
  case Nil
  then show ?case by simp
next
  case (Cons i "is")
  show ?case
  proof (cases "createWorker env i")
    case (Inl error)
    with Cons.prems show ?thesis by simp
  next
    case (Inr worker)
    let ?s1 = "s\<lparr>diedListeners := diedListeners s @ [worker],
               mediasoupWorkers := mediasoupWorkers s @ [worker],
               timers := timers s @
                 [\<lparr>delay_ms = 120000, repeating = True, action = LogResourceUsage worker\<rparr>]\<rparr>"
    from Cons.prems Inr have "runMediasoupWorkers_loop env is ?s1 = Inr s'"
      by simp
    from Cons.IH [OF this] show ?thesis
      by simp
  qed
qed

lemma run_pool:
  assumes "run env numWorkers = Inr s"
  shows "nextMediasoupWorkerIdx s = 0 \<and> length (mediasoupWorkers s) = numWorkers"
proof (cases "runMediasoupWorkers env numWorkers initial")
  case (Inl error)
  with assms show ?thesis by (simp add: run_def)
next
  case (Inr s0)
  from runMediasoupWorkers_loop_pool [OF Inr [unfolded runMediasoupWorkers_def]]
  have "nextMediasoupWorkerIdx s0 = 0" "length (mediasoupWorkers s0) = numWorkers"
    by (simp_all add: initial_def)
  with assms Inr show ?thesis
    by (auto simp: run_def)
qed

lemma reachable_cursor:
  assumes "reachable env numWorkers s" and "0 < numWorkers"
  shows "length (mediasoupWorkers s) = numWorkers
       \<and> nextMediasoupWorkerIdx s < length (mediasoupWorkers s)"
  using assms
proof (induction rule: reachable.induct)
  case (started s)
  with run_pool [OF started(1)] show ?case by simp
next
  case (stepped s ev)
  then have "nextMediasoupWorkerIdx s < length (mediasoupWorkers s)"
    by simp
  from step_cursor [OF this, of env ev] stepped show ?case
    by (simp add: step_pool)
qed

text \<open>
  So the cursor of a gateway started with at least one worker always indexes a pool
  slot: these are the cursor states of the round-robin property of the pool.
\<close>

lemma reachable_run_events:
  "reachable env numWorkers s \<Longrightarrow> reachable env numWorkers (run_events env evs s)"
  by (induction evs arbitrary: s) (simp_all add: reachable.stepped)

lemma started_reachable: "reachable env_ok 2 started"
proof -
  have "[0..<2] = [0, Suc 0]"
    by (simp add: upt_conv_Cons)
  then have "run env_ok 2 = Inr started"
    by (simp add: run_def runMediasoupWorkers_def env_ok_def initial_def started_def)
  then show ?thesis by (rule reachable.started)
qed

lemma alice_joined:
  "rooms (run_events env_ok [ConnectionRequest alice_request, QueueNext] started)
       (Str ''room-A'')
     = Some room_A"
  "roomCreateCalls (run_events env_ok [ConnectionRequest alice_request, QueueNext] started) = 1"
  by (simp_all add: connectionrequest_def queueNext_def queuedUnit_def connectionTask_def
      getOrCreateRoom_def getMediasoupWorker_def Let_def started_def env_ok_def alice_request_def
      room_A_def)

lemma step_deletes_only_on_close:
  assumes "rooms s roomId = Some room" and "rooms (step env ev s) roomId = None"
  shows "\<exists>r. ev = RoomClose r"
proof (cases ev)
  case (ConnectionRequest info)
  with assms show ?thesis by (simp add: connectionrequest_def Let_def split: if_splits)
next
  case QueueNext
  show ?thesis
  proof (cases "queue s")
    case Nil
    with assms QueueNext show ?thesis by (simp add: queueNext_def)
  next
    case (Cons u us)
    have "rooms (snd (getOrCreateRoom env (uow_roomId u) (s\<lparr>queue := us\<rparr>))) roomId = Some room"
      using assms(1) by (simp add: getOrCreateRoom_keeps)
    with assms(2) show ?thesis
      by (simp add: QueueNext queueNext_def Cons queuedUnit_frame)
  qed
next
  case (RoomClose r)
  then show ?thesis by blast
next
  case (WorkerDied w)
  with assms show ?thesis by (simp add: worker_emit_died_eq)
next
  case (RestRequest req)
  with assms show ?thesis by (simp add: expressApp_fields split: if_splits)
qed

lemma step_adds_only_in_queue:
  assumes "rooms s roomId = None" and "ev \<noteq> QueueNext"
  shows "rooms (step env ev s) roomId = None"
  using assms
  by (cases ev)
    (simp_all add: connectionrequest_def Let_def room_emit_close_eq worker_emit_died_eq
       expressApp_fields)

text \<open>
  While the queue is busy with a unit (no other unit starts), an identifier that has no
  entry gets none: the lookup of \<open>getOrCreateRoom\<close> is still right when the
  awaited \<open>Room.create\<close> has resolved.
\<close>

lemma absent_while_queue_busy:
  assumes "rooms s roomId = None" and "QueueNext \<notin> set evs"
  shows "rooms (run_events env evs s) roomId = None"
  using assms
proof (induction evs arbitrary: s)
  case Nil
  then show ?case by simp
next
  case (Cons ev evs)
  from Cons.prems have "rooms (step env ev s) roomId = None"
    by (intro step_adds_only_in_queue) auto
  with Cons show ?case by simp
qed

text \<open>
  C6. In every reachable state, for every room held in the registry: when that room
  emits \<open>close\<close> its entry is gone; an event that removes the entry can only be a
  \<open>close\<close> event; and the next \<open>getOrCreateRoom\<close> for the same identifier calls
  \<open>Room.create\<close> again and does not return the closed room: the room it returns,
  if \<open>Room.create\<close> resolves, is a younger instance.
\<close>

theorem room_removed_on_close:
  assumes "reachable env numWorkers s" and "rooms s roomId = Some room"
  shows "rooms (room_emit_close (room_ref room) s) roomId = None
       \<and> (\<forall>ev. rooms (step env ev s) roomId = None \<longrightarrow> (\<exists>r. ev = RoomClose r))
       \<and> roomCreateCalls (snd (getOrCreateRoom env roomId (room_emit_close (room_ref room) s)))
           = roomCreateCalls s + 1
       \<and> fst (getOrCreateRoom env roomId (room_emit_close (room_ref room) s)) \<noteq> Inr room
       \<and> (\<forall>room'. fst (getOrCreateRoom env roomId (room_emit_close (room_ref room) s)) = Inr room'
             \<longrightarrow> room_ref room' = roomCreateCalls s \<and> room_ref room < room_ref room')"
proof -
  let ?s' = "room_emit_close (room_ref room) s"
  from reachable_invariants [OF assms(1)] assms(2)
  have listener: "roomId \<in> set (closeListeners s (room_ref room))"
    and older: "room_ref room < roomCreateCalls s"
    by (simp_all add: registry_ok_def)
  have gone: "rooms ?s' roomId = None"
    using listener by (simp add: room_emit_close_eq)
  have calls: "roomCreateCalls ?s' = roomCreateCalls s"
    by (simp add: room_emit_close_eq)
  have only: "\<forall>ev. rooms (step env ev s) roomId = None \<longrightarrow> (\<exists>r. ev = RoomClose r)"
    using step_deletes_only_on_close [OF assms(2)] by blast
  show ?thesis
  proof (cases "Room_create env (roomCreateCalls ?s') (fst (getMediasoupWorker ?s')) roomId")
    case None
    note new = getOrCreateRoom_created [OF gone None]
    have differs: "\<lparr>room_ref = roomCreateCalls s, room_roomId = roomId,
             room_mediasoupWorker = fst (getMediasoupWorker ?s')\<rparr> \<noteq> room"
      using older by (cases room) auto
    from gone only older differs show ?thesis
      by (simp add: new calls getMediasoupWorker_frame)
  next
    case (Some error)
    note failed = getOrCreateRoom_failed [OF gone Some]
    from gone only show ?thesis
      by (simp add: failed calls getMediasoupWorker_frame)
  qed
qed

theorem room_removed_on_close_witness:
  "rooms (room_emit_close 0 (run_events env_ok [ConnectionRequest alice_request, QueueNext] started))
     (Str ''room-A'') = None
   \<and> roomCreateCalls (snd (getOrCreateRoom env_ok (Str ''room-A'')
        (room_emit_close 0
           (run_events env_ok [ConnectionRequest alice_request, QueueNext] started)))) = 2
   \<and> fst (getOrCreateRoom env_ok (Str ''room-A'')
        (room_emit_close 0
           (run_events env_ok [ConnectionRequest alice_request, QueueNext] started)))
      \<noteq> Inr room_A"
proof -
  let ?s = "run_events env_ok [ConnectionRequest alice_request, QueueNext] started"
  have r: "reachable env_ok 2 ?s"
    by (rule reachable_run_events [OF started_reachable])
  have ref: "room_ref room_A = 0"
    by (simp add: room_A_def)
  from room_removed_on_close [OF r alice_joined(1), unfolded ref alice_joined(2)]
  show ?thesis
    by simp
qed

text \<open>
  C8. In every reachable state, for every worker \<open>w\<close> of the pool: when \<open>w\<close> emits
  \<open>died\<close>, each \<open>died\<close> listener registered on it (there is at least one: the pool
  and the list of registrations are the same list) logs the death with the pid of
  \<open>w\<close> and sets a one-shot timer of 2000 ms whose action is \<open>process.exit(1)\<close>;
  nothing else changes, so the pool still holds \<open>w\<close>, and no event of the gateway
  changes the pool: a worker is never restarted or replaced.
\<close>

theorem worker_died_exits:
  assumes "reachable env numWorkers s" and "w \<in> set (mediasoupWorkers s)"
  shows "0 < count_list (mediasoupWorkers s) w
       \<and> worker_emit_died w s =
           s\<lparr>effects := effects s @
                replicate (count_list (mediasoupWorkers s) w)
                  (LoggerError ''mediasoup Worker died, exiting  in 2 seconds... [pid:%d]''
                     [ArgNum (pid w)]),
             timers := timers s @
                replicate (count_list (mediasoupWorkers s) w)
                  \<lparr>delay_ms = 2000, repeating = False, action = ProcessExit 1\<rparr>\<rparr>
       \<and> mediasoupWorkers (worker_emit_died w s) = mediasoupWorkers s
       \<and> (\<forall>ev. mediasoupWorkers (step env ev s) = mediasoupWorkers s)"
proof -
  from reachable_invariants [OF assms(1)]
  have listeners: "diedListeners s = mediasoupWorkers s"
    by simp
  have "count_list (mediasoupWorkers s) w \<noteq> 0"
    using assms(2) by (simp add: count_list_0_iff)
  then show ?thesis
    by (simp add: worker_emit_died_eq listeners step_pool)
qed

theorem worker_died_exits_witness:
  "worker_emit_died (Worker 101) started =
     started\<lparr>effects := effects started @
                [LoggerError ''mediasoup Worker died, exiting  in 2 seconds... [pid:%d]''
                   [ArgNum 101]],
             timers := timers started @
                [\<lparr>delay_ms = 2000, repeating = False, action = ProcessExit 1\<rparr>]\<rparr>"
proof -
  have w: "Worker 101 \<in> set (mediasoupWorkers started)"
    and k: "count_list (mediasoupWorkers started) (Worker 101) = 1"
    by (simp_all add: started_def)
  from worker_died_exits [OF started_reachable w, unfolded k]
  show ?thesis
    by simp
qed

section \<open>Properties of the gateway with the await as an event\<close>

lemma connectionTask_joinRoom:
  "connectionTask env u s =
     (case getOrCreateRoom env (uow_roomId u) s of
        (Inl error, s1) \<Rightarrow> (Some error, s1)
      | (Inr room, s1) \<Rightarrow> joinRoom env u room s1)"
  by (simp add: connectionTask_def joinRoom_def split: prod.splits sum.splits)

lemma queuedUnit_catchUnit:
  "queuedUnit env u s = catchUnit u (connectionTask env u s)"
  by (simp add: queuedUnit_def catchUnit_def)

lemma catchUnit_joinRoom:
  "catchUnit u (joinRoom env u room s) = s\<lparr>effects := effects (catchUnit u (joinRoom env u room s))\<rparr>"
  "handledRooms (effects (catchUnit u (joinRoom env u room s))) =
     handledRooms (effects s) @ (if accept env (uow_conn u) = None then [room_ref room] else [])"
  by (simp_all add: catchUnit_def joinRoom_def Let_def handledRooms_append split: option.splits)

lemma catchUnit_error:
  "catchUnit u (Some error, s) = s\<lparr>effects := effects (catchUnit u (Some error, s))\<rparr>"
  "handledRooms (effects (catchUnit u (Some error, s))) = handledRooms (effects s)"
  by (simp_all add: catchUnit_def handledRooms_append)

lemma unit_start_present:
  "rooms (gw w) (uow_roomId u) = Some room \<Longrightarrow>
     unit_start env u w = w\<lparr>gw := queuedUnit env u (gw w)\<rparr>"
  by (simp add: unit_start_def)

lemma unit_start_absent:
  assumes "rooms (gw w) (uow_roomId u) = None"
  shows "unit_start env u w =
     w\<lparr>gw := (snd (getMediasoupWorker (gw w)))
              \<lparr>effects := effects (gw w) @
                 [LoggerInfo ''creating a new Room [roomId:%s]'' [ArgStr (uow_roomId u)]],
               roomCreateCalls := roomCreateCalls (gw w) + 1\<rparr>,
        awaiting := Some \<lparr>susp_unit = u, susp_worker = fst (getMediasoupWorker (gw w)),
                          susp_call = roomCreateCalls (gw w)\<rparr>\<rparr>"
  using assms
  by (simp add: unit_start_def getMediasoupWorker_update getMediasoupWorker_frame Let_def)

lemma unit_resume_failed:
  assumes "Room_create env (susp_call p) (susp_worker p) (uow_roomId (susp_unit p)) = Some error"
  shows "unit_resume env p w =
     w\<lparr>gw := catchUnit (susp_unit p) (Some error, gw w), awaiting := None\<rparr>"
  using assms by (simp add: unit_resume_def Let_def)

lemma unit_resume_created:
  assumes "Room_create env (susp_call p) (susp_worker p) (uow_roomId (susp_unit p)) = None"
  shows "unit_resume env p w =
     w\<lparr>gw := catchUnit (susp_unit p)
                (joinRoom env (susp_unit p)
                   \<lparr>room_ref = susp_call p, room_roomId = uow_roomId (susp_unit p),
                    room_mediasoupWorker = susp_worker p\<rparr>
                   ((gw w)\<lparr>rooms := (rooms (gw w))(uow_roomId (susp_unit p) \<mapsto>
                               \<lparr>room_ref = susp_call p, room_roomId = uow_roomId (susp_unit p),
                                room_mediasoupWorker = susp_worker p\<rparr>),
                            closeListeners := (closeListeners (gw w))
                               (susp_call p := closeListeners (gw w) (susp_call p) @
                                  [uow_roomId (susp_unit p)])\<rparr>)),
        awaiting := None,
        liveRooms := liveRooms w @
          [\<lparr>room_ref = susp_call p, room_roomId = uow_roomId (susp_unit p),
            room_mediasoupWorker = susp_worker p\<rparr>]\<rparr>"
  using assms by (simp add: unit_resume_def Let_def)

text \<open>
  A unit that is started and resumed with no event in between is the unit run from
  start to finish.
\<close>

lemma unit_resume_start:
  assumes "awaiting w = None"
  shows "gw (async_step env RoomCreateSettled (unit_start env u w)) = queuedUnit env u (gw w)"
proof (cases "rooms (gw w) (uow_roomId u)")
  case (Some room)
  then show ?thesis using assms by (simp add: unit_start_present)
next
  case None
  let ?p = "\<lparr>susp_unit = u, susp_worker = fst (getMediasoupWorker (gw w)),
             susp_call = roomCreateCalls (gw w)\<rparr>"
  note start = unit_start_absent [OF None, of env]
  show ?thesis
  proof (cases "Room_create env (roomCreateCalls (gw w)) (fst (getMediasoupWorker (gw w)))
                  (uow_roomId u)")
    case resolved: None
    then have "Room_create env (susp_call ?p) (susp_worker ?p) (uow_roomId (susp_unit ?p)) = None"
      by simp
    note resume = unit_resume_created [OF this]
    show ?thesis
      by (simp add: start resume queuedUnit_catchUnit connectionTask_joinRoom
            getOrCreateRoom_created [OF None resolved] getMediasoupWorker_frame)
  next
    case (Some error)
    then have "Room_create env (susp_call ?p) (susp_worker ?p) (uow_roomId (susp_unit ?p)) =
                 Some error"
      by simp
    note resume = unit_resume_failed [OF this]
    show ?thesis
      by (simp add: start resume queuedUnit_catchUnit connectionTask_joinRoom
            getOrCreateRoom_failed [OF None Some])
  qed
qed

lemma async_queueNext:
  assumes "awaiting w = None"
  shows "gw (async_step env RoomCreateSettled (async_step env (Event QueueNext) w)) =
           queueNext env (gw w)"
proof (cases "queue (gw w)")
  case Nil
  then show ?thesis using assms by (simp add: queueNext_def)
next
  case (Cons u us)
  have "awaiting (w\<lparr>gw := (gw w)\<lparr>queue := us\<rparr>\<rparr>) = None"
    using assms by simp
  from unit_resume_start [OF this, of env u] show ?thesis
    using assms by (simp add: queueNext_def Cons)
qed


text \<open>
  The invariant of the nodes holds at the start and is kept by every event.
\<close>

lemma node_ok_cong:
  assumes "node_ok w"
    and "rooms (gw w') = rooms (gw w)" "closeListeners (gw w') = closeListeners (gw w)"
    and "roomCreateCalls (gw w') = roomCreateCalls (gw w)"
    and "awaiting w' = awaiting w \<or> awaiting w' = None" "liveRooms w' = liveRooms w"
  shows "node_ok w'"
  using assms by (auto simp: node_ok_def)

lemma node_ok_unit_start:
  assumes "node_ok w" and "awaiting w = None"
  shows "node_ok (unit_start env u w)"
proof (cases "rooms (gw w) (uow_roomId u)")
  case (Some room)
  show ?thesis
    by (rule node_ok_cong [OF assms(1)])
      (simp_all add: unit_start_present [OF Some] queuedUnit_frame
         getOrCreateRoom_present [OF Some])
next
  case None
  show ?thesis
    unfolding unit_start_absent [OF None]
    using assms None by (auto simp: node_ok_def getMediasoupWorker_frame less_Suc_eq)
qed

lemma node_ok_unit_resume:
  assumes "node_ok w" and "awaiting w = Some p"
  shows "node_ok (unit_resume env p w)"
proof (cases "Room_create env (susp_call p) (susp_worker p) (uow_roomId (susp_unit p))")
  case (Some error)
  show ?thesis
    by (rule node_ok_cong [OF assms(1)])
      (simp_all add: unit_resume_failed [OF Some] catchUnit_def)
next
  case None
  let ?id = "uow_roomId (susp_unit p)"
  let ?room = "\<lparr>room_ref = susp_call p, room_roomId = ?id,
                room_mediasoupWorker = susp_worker p\<rparr>"
  let ?s5 = "(gw w)\<lparr>rooms := (rooms (gw w))(?id \<mapsto> ?room),
                    closeListeners := (closeListeners (gw w))
                      (susp_call p := closeListeners (gw w) (susp_call p) @ [?id])\<rparr>"
  let ?g = "catchUnit (susp_unit p) (joinRoom env (susp_unit p) ?room ?s5)"
  from assms have absent: "rooms (gw w) ?id = None"
    and call: "susp_call p < roomCreateCalls (gw w)"
    and nolistener: "closeListeners (gw w) (susp_call p) = []"
    by (simp_all add: node_ok_def)
  from assms(1) have live: "\<And>room. room \<in> set (liveRooms w) \<Longrightarrow>
        rooms (gw w) (room_roomId room) = Some room \<and>
        closeListeners (gw w) (room_ref room) = [room_roomId room] \<and>
        room_ref room < roomCreateCalls (gw w)"
    and dist: "distinct (map room_roomId (liveRooms w))"
    and fresh: "\<And>r. roomCreateCalls (gw w) \<le> r \<Longrightarrow> closeListeners (gw w) r = []"
    by (simp_all add: node_ok_def)
  have g: "rooms ?g = (rooms (gw w))(?id \<mapsto> ?room)"
    "closeListeners ?g = (closeListeners (gw w))(susp_call p := [?id])"
    "roomCreateCalls ?g = roomCreateCalls (gw w)"
    by (subst catchUnit_joinRoom(1), simp add: nolistener)+
  have other: "room_roomId room \<noteq> ?id \<and> room_ref room \<noteq> susp_call p"
    if "room \<in> set (liveRooms w)" for room
    using live [OF that] absent nolistener by auto
  have "?id \<notin> room_roomId ` set (liveRooms w)"
  proof
    assume "?id \<in> room_roomId ` set (liveRooms w)"
    then obtain room where "room \<in> set (liveRooms w)" and "room_roomId room = ?id"
      by auto
    with other [of room] show False by simp
  qed
  then have "distinct (map room_roomId (liveRooms w @ [?room]))"
    using dist by simp
  moreover have "\<forall>room \<in> set (liveRooms w @ [?room]).
        rooms ?g (room_roomId room) = Some room \<and>
        closeListeners ?g (room_ref room) = [room_roomId room] \<and>
        room_ref room < roomCreateCalls ?g"
    using live other call by (auto simp: g)
  moreover have "\<forall>r. roomCreateCalls ?g \<le> r \<longrightarrow> closeListeners ?g r = []"
    using fresh call by (auto simp: g)
  ultimately show ?thesis
    unfolding unit_resume_created [OF None]
    by (simp add: node_ok_def)
qed


lemma node_okD:
  assumes "node_ok w"
  shows "distinct (map room_roomId (liveRooms w))"
    and "\<And>room. room \<in> set (liveRooms w) \<Longrightarrow> rooms (gw w) (room_roomId room) = Some room"
    and "\<And>room. room \<in> set (liveRooms w) \<Longrightarrow>
           closeListeners (gw w) (room_ref room) = [room_roomId room]"
    and "\<And>room. room \<in> set (liveRooms w) \<Longrightarrow> room_ref room < roomCreateCalls (gw w)"
    and "\<And>r. roomCreateCalls (gw w) \<le> r \<Longrightarrow> closeListeners (gw w) r = []"
    and "\<And>p. awaiting w = Some p \<Longrightarrow> rooms (gw w) (uow_roomId (susp_unit p)) = None"
    and "\<And>p. awaiting w = Some p \<Longrightarrow> susp_call p < roomCreateCalls (gw w)"
    and "\<And>p. awaiting w = Some p \<Longrightarrow> closeListeners (gw w) (susp_call p) = []"
  using assms unfolding node_ok_def by blast+

lemma node_ok_close:
  assumes "node_ok w" and "r \<in> set (map room_ref (liveRooms w))"
  shows "node_ok (w\<lparr>gw := room_emit_close r (gw w),
                    liveRooms := filter (\<lambda>room. room_ref room \<noteq> r) (liveRooms w)\<rparr>)"
proof -
  let ?g = "room_emit_close r (gw w)"
  note ok = node_okD [OF assms(1)]
  from assms(2) obtain room0 where room0: "room0 \<in> set (liveRooms w)" "room_ref room0 = r"
    by auto
  have listeners: "closeListeners (gw w) r = [room_roomId room0]"
    using ok(3) [OF room0(1)] room0(2) by simp
  have closed: "rooms ?g = (rooms (gw w))(room_roomId room0 := None)"
    by (rule ext) (simp add: room_emit_close_eq listeners)
  have same: "closeListeners ?g = closeListeners (gw w)"
    "roomCreateCalls ?g = roomCreateCalls (gw w)"
    by (simp_all add: room_emit_close_eq)
  have other: "room_roomId room \<noteq> room_roomId room0"
    if "room \<in> set (liveRooms w)" "room_ref room \<noteq> r" for room
  proof
    assume "room_roomId room = room_roomId room0"
    with ok(2) [OF that(1)] ok(2) [OF room0(1)] have "Some room = Some room0"
      by (simp only:)
    with that(2) room0(2) show False by simp
  qed
  have n0: "distinct (map room_roomId (filter (\<lambda>room. room_ref room \<noteq> r) (liveRooms w)))"
    using ok(1) by (rule distinct_map_filter)
  have n1: "rooms ?g (room_roomId room) = Some room \<and>
        closeListeners ?g (room_ref room) = [room_roomId room] \<and>
        room_ref room < roomCreateCalls ?g"
    if "room \<in> set (filter (\<lambda>room. room_ref room \<noteq> r) (liveRooms w))" for room
  proof -
    from that have in_live: "room \<in> set (liveRooms w)" and ref: "room_ref room \<noteq> r"
      by simp_all
    from ok(2,3,4) [OF in_live] other [OF in_live ref] show ?thesis
      by (simp add: closed same)
  qed
  have n2: "closeListeners ?g r' = []" if "roomCreateCalls ?g \<le> r'" for r'
    using that ok(5) [of r'] by (simp add: same)
  have n3: "rooms ?g (uow_roomId (susp_unit p)) = None \<and>
        susp_call p < roomCreateCalls ?g \<and> closeListeners ?g (susp_call p) = []"
    if "awaiting w = Some p" for p
    using ok(6,7,8) [OF that] by (simp add: closed same)
  show ?thesis
    unfolding node_ok_def using n0 n1 n2 n3 by simp
qed


lemma step_other_fields:
  assumes "ev \<noteq> QueueNext" and "\<forall>r. ev \<noteq> RoomClose r"
  shows "rooms (step env ev s) = rooms s"
    and "closeListeners (step env ev s) = closeListeners s"
    and "roomCreateCalls (step env ev s) = roomCreateCalls s"
  using assms
  by (cases ev; simp add: connectionrequest_def Let_def worker_emit_died_eq expressApp_fields)+

lemma node_ok_other:
  assumes "node_ok w" and "e \<noteq> QueueNext" and "\<forall>r. e \<noteq> RoomClose r"
  shows "node_ok (w\<lparr>gw := step env e (gw w)\<rparr>)"
  by (rule node_ok_cong [OF assms(1)]) (simp_all add: step_other_fields [OF assms(2,3)])

lemma node_ok_step:
  assumes "node_ok w"
  shows "node_ok (async_step env ev w)"
proof (cases ev)
  case RoomCreateSettled
  then show ?thesis
    using assms by (simp add: node_ok_unit_resume split: option.splits)
next
  case (Event e)
  show ?thesis
  proof (cases e)
    case QueueNext
    show ?thesis
    proof (cases "awaiting w")
      case (Some p)
      then show ?thesis using assms by (simp add: Event QueueNext)
    next
      case None
      show ?thesis
      proof (cases "queue (gw w)")
        case Nil
        then show ?thesis using assms by (simp add: Event QueueNext None)
      next
        case (Cons u us)
        have "node_ok (w\<lparr>gw := (gw w)\<lparr>queue := us\<rparr>\<rparr>)"
          by (rule node_ok_cong [OF assms]) simp_all
        then have "node_ok (unit_start env u (w\<lparr>gw := (gw w)\<lparr>queue := us\<rparr>\<rparr>))"
          by (rule node_ok_unit_start) (simp add: None)
        then show ?thesis by (simp add: Event QueueNext None Cons)
      qed
    qed
  next
    case (RoomClose r)
    then show ?thesis
      using assms node_ok_close [OF assms, of r] by (simp add: Event)
  next
    case (ConnectionRequest info)
    then show ?thesis
      using node_ok_other [OF assms, of e env] by (simp add: Event)
  next
    case (WorkerDied wk)
    then show ?thesis
      using node_ok_other [OF assms, of e env] by (simp add: Event)
  next
    case (RestRequest req)
    then show ?thesis
      using node_ok_other [OF assms, of e env] by (simp add: Event)
  qed
qed

lemma run_registry_empty:
  assumes "run env numWorkers = Inr s"
  shows "rooms s = Map.empty \<and> closeListeners s = (\<lambda>r. []) \<and> roomCreateCalls s = 0"
proof (cases "runMediasoupWorkers env numWorkers initial")
  case (Inl error)
  with assms show ?thesis by (simp add: run_def)
next
  case (Inr s0)
  from runMediasoupWorkers_loop_frame [OF Inr [unfolded runMediasoupWorkers_def]]
  have "rooms s0 = Map.empty" "closeListeners s0 = (\<lambda>r. [])" "roomCreateCalls s0 = 0"
    by (simp_all add: initial_def)
  with assms Inr show ?thesis
    by (auto simp: run_def)
qed

lemma async_reachable_node_ok:
  assumes "async_reachable env numWorkers w"
  shows "node_ok w"
  using assms
proof (induction rule: async_reachable.induct)
  case (async_started s)
  from run_registry_empty [OF this] show ?case
    by (simp add: node_ok_def)
next
  case (async_stepped w ev)
  then show ?case by (simp add: node_ok_step)
qed

lemma async_reachable_run_async:
  "async_reachable env numWorkers w \<Longrightarrow> async_reachable env numWorkers (run_async env evs w)"
  by (induction evs arbitrary: w) (simp_all add: async_reachable.async_stepped)

text \<open>
  The invariant of a burst holds when the burst begins and is kept by every event of
  the burst.
\<close>

lemma handledRooms_replicate_LoggerError:
  "handledRooms (replicate k (LoggerError f as)) = []"
  by (induction k) simp_all

lemma step_other_handled:
  assumes "e \<noteq> QueueNext"
  shows "handledRooms (effects (step env e s)) = handledRooms (effects s)"
  using assms
  by (cases e)
    (simp_all add: connectionrequest_def Let_def handledRooms_append room_emit_close_eq
       worker_emit_died_eq handledRooms_replicate_LoggerError expressApp_handledRooms)

lemma step_other_queue:
  "queue (step env (WorkerDied wk) s) = queue s"
  "queue (step env (RestRequest req) s) = queue s"
  by (simp_all add: worker_emit_died_eq expressApp_fields)

lemma burst_inv_cong:
  assumes "burst_inv env roomId w0 K w"
    and "queue (gw w') = queue (gw w)" "rooms (gw w') = rooms (gw w)"
    and "roomCreateCalls (gw w') = roomCreateCalls (gw w)"
    and "handledRooms (effects (gw w')) = handledRooms (effects (gw w))"
    and "awaiting w' = awaiting w" "liveRooms w' = liveRooms w"
  shows "burst_inv env roomId w0 K w'"
  using assms by (simp add: burst_inv_def pending_def)

lemma burst_inv_request:
  assumes "burst_inv env roomId w0 K w"
    and "query_roomId info = Str roomId" and "\<not> falsy (query_roomId info)"
    and "\<not> falsy (query_peerId info)"
  shows "burst_inv env roomId w0 (Suc K) (w\<lparr>gw := connectionrequest info (gw w)\<rparr>)"
proof -
  note new = connectionrequest_accepted [OF assms(3,4), of "gw w"]
  from assms(1) show ?thesis
    unfolding burst_inv_def pending_def
    by (simp add: new assms(2))
qed

lemma burst_inv_start:
  assumes "burst_inv env roomId w0 K w" and "awaiting w = None" and "queue (gw w) = u # us"
  shows "burst_inv env roomId w0 K (unit_start env u (w\<lparr>gw := (gw w)\<lparr>queue := us\<rparr>\<rparr>))"
proof -
  let ?w1 = "w\<lparr>gw := (gw w)\<lparr>queue := us\<rparr>\<rparr>"
  from assms(1,3) have u: "uow_roomId u = Str roomId"
    by (simp add: burst_inv_def)
  show ?thesis
  proof (cases "rooms (gw w) (Str roomId)")
    case None
    then have "rooms (gw ?w1) (uow_roomId u) = None"
      by (simp add: u)
    note start = unit_start_absent [OF this, of env]
    from assms None show ?thesis
      unfolding burst_inv_def pending_def start
      by (simp add: getMediasoupWorker_frame handledRooms_append u)
  next
    case (Some room)
    then have here: "rooms (gw ?w1) (uow_roomId u) = Some room"
      by (simp add: u)
    note start = unit_start_present [OF here, of env]
    have here': "rooms ((gw w)\<lparr>queue := us\<rparr>) (uow_roomId u) = Some room"
      using here by simp
    note unit = queuedUnit_present [OF here', of env]
    have q: "queue (queuedUnit env u ((gw w)\<lparr>queue := us\<rparr>)) = us"
      by (simp add: queuedUnit_frame)
    from assms(1) Some obtain k where k: "length (queue (gw w)) + k \<le> K"
      "handledRooms (effects (gw w)) = handledRooms (effects (gw w0)) @ replicate k (room_ref room)"
      "(\<forall>n mw. Room_create env n mw (Str roomId) = None) \<longrightarrow>
                roomCreateCalls (gw w) = roomCreateCalls (gw w0) + 1 \<and>
                ((\<forall>c. accept env c = None) \<longrightarrow> K = length (queue (gw w)) + k)"
      and live: "liveRooms w = liveRooms w0 @ [room]" "room_roomId room = Str roomId"
      unfolding burst_inv_def pending_def assms(2) by auto
    define k' where "k' = (if accept env (uow_conn u) = None then Suc k else k)"
    have handled: "handledRooms (effects (queuedUnit env u ((gw w)\<lparr>queue := us\<rparr>))) =
        handledRooms (effects (gw w0)) @ replicate k' (room_ref room)"
      by (simp add: unit(3) k(2) k'_def replicate_append_same)
    have count: "length us + k' \<le> K"
      using k(1) by (simp add: assms(3) k'_def)
    have ok: "(\<forall>n mw. Room_create env n mw (Str roomId) = None) \<longrightarrow>
                roomCreateCalls (gw w) = roomCreateCalls (gw w0) + 1 \<and>
                ((\<forall>c. accept env c = None) \<longrightarrow> K = length us + k')"
      using k(3) by (simp add: assms(3) k'_def)
    from assms(1) have units: "\<forall>u \<in> set us. uow_roomId u = Str roomId"
      by (simp add: burst_inv_def assms(3))
    show ?thesis
      unfolding burst_inv_def pending_def start
      using units handled count ok live Some assms(2)
      by (simp add: unit(1,2) q)
  qed
qed

lemma burst_inv_next:
  assumes "burst_inv env roomId w0 K w"
  shows "burst_inv env roomId w0 K (async_step env (Event QueueNext) w)"
proof (cases "awaiting w")
  case (Some p)
  with assms show ?thesis by simp
next
  case None
  show ?thesis
  proof (cases "queue (gw w)")
    case Nil
    with assms None show ?thesis by simp
  next
    case (Cons u us)
    from burst_inv_start [OF assms None Cons] show ?thesis
      by (simp add: None Cons)
  qed
qed

lemma burst_inv_resume:
  assumes "burst_inv env roomId w0 K w" and "awaiting w = Some p"
  shows "burst_inv env roomId w0 K (unit_resume env p w)"
proof -
  from assms have id: "uow_roomId (susp_unit p) = Str roomId"
    and absent: "rooms (gw w) (Str roomId) = None"
    by (simp_all add: burst_inv_def)
  from assms absent have before: "liveRooms w = liveRooms w0"
    "handledRooms (effects (gw w)) = handledRooms (effects (gw w0))"
    "length (queue (gw w)) + 1 \<le> K"
    "(\<forall>n mw. Room_create env n mw (Str roomId) = None) \<longrightarrow>
       roomCreateCalls (gw w) = roomCreateCalls (gw w0) + 1 \<and>
       ((\<forall>c. accept env c = None) \<longrightarrow> K = length (queue (gw w)) + 1)"
    and units: "\<forall>u \<in> set (queue (gw w)). uow_roomId u = Str roomId"
    by (simp_all add: burst_inv_def pending_def)
  show ?thesis
  proof (cases "Room_create env (susp_call p) (susp_worker p) (uow_roomId (susp_unit p))")
    case (Some error)
    then have "\<not> (\<forall>n mw. Room_create env n mw (Str roomId) = None)"
      by (auto simp: id)
    then have no: "(\<forall>n mw. Room_create env n mw (Str roomId) = None) = False"
      by simp
    let ?g = "catchUnit (susp_unit p) (Some error, gw w)"
    have g: "rooms ?g = rooms (gw w)" "queue ?g = queue (gw w)"
      "roomCreateCalls ?g = roomCreateCalls (gw w)"
      by (simp_all add: catchUnit_def)
    show ?thesis
      unfolding burst_inv_def pending_def unit_resume_failed [OF Some]
      using before(1,2,3) units absent
      by (simp add: g catchUnit_error(2) no)
  next
    case None
    let ?room = "\<lparr>room_ref = susp_call p, room_roomId = Str roomId,
                  room_mediasoupWorker = susp_worker p\<rparr>"
    let ?s5 = "(gw w)\<lparr>rooms := (rooms (gw w))(Str roomId \<mapsto> ?room),
                      closeListeners := (closeListeners (gw w))
                        (susp_call p := closeListeners (gw w) (susp_call p) @ [Str roomId])\<rparr>"
    let ?g = "catchUnit (susp_unit p) (joinRoom env (susp_unit p) ?room ?s5)"
    note resume = unit_resume_created [OF None, unfolded id]
    have g: "rooms ?g = (rooms (gw w))(Str roomId \<mapsto> ?room)"
      "queue ?g = queue (gw w)"
      "roomCreateCalls ?g = roomCreateCalls (gw w)"
      by (subst catchUnit_joinRoom(1), simp)+
    define k where "k = (if accept env (uow_conn (susp_unit p)) = None then 1 else 0 :: nat)"
    have handled: "handledRooms (effects ?g) =
        handledRooms (effects (gw w0)) @ replicate k (room_ref ?room)"
      by (simp add: catchUnit_joinRoom(2) before(2) k_def)
    have count: "length (queue (gw w)) + k \<le> K"
      using before(3) by (simp add: k_def)
    have ok: "(\<forall>n mw. Room_create env n mw (Str roomId) = None) \<longrightarrow>
       roomCreateCalls (gw w) = roomCreateCalls (gw w0) + 1 \<and>
       ((\<forall>c. accept env c = None) \<longrightarrow> K = length (queue (gw w)) + k)"
      using before(4) by (simp add: k_def)
    have "\<exists>k. length (queue (gw w)) + k \<le> K \<and>
        handledRooms (effects ?g) = handledRooms (effects (gw w0)) @ replicate k (room_ref ?room) \<and>
        ((\<forall>n mw. Room_create env n mw (Str roomId) = None) \<longrightarrow>
           roomCreateCalls (gw w) = roomCreateCalls (gw w0) + 1 \<and>
           ((\<forall>c. accept env c = None) \<longrightarrow> K = length (queue (gw w)) + k))"
      using handled count ok by blast
    then show ?thesis
      unfolding burst_inv_def pending_def resume
      using units before(1)
      by (simp add: g)
  qed
qed

lemma burst_inv_step:
  assumes "burst_inv env roomId w0 K w" and "burst_event roomId ev"
  shows "burst_inv env roomId w0 (if is_request ev then Suc K else K) (async_step env ev w)"
proof (cases ev)
  case RoomCreateSettled
  with assms(1) show ?thesis
    by (simp add: burst_inv_resume split: option.splits)
next
  case (Event e)
  show ?thesis
  proof (cases e)
    case (ConnectionRequest info)
    from assms(2) [unfolded Event ConnectionRequest burst_event.simps]
    have request: "query_roomId info = Str roomId"
      "\<not> falsy (query_roomId info)" "\<not> falsy (query_peerId info)"
      by blast+
    from burst_inv_request [OF assms(1) request] show ?thesis
      by (simp add: Event ConnectionRequest)
  next
    case QueueNext
    with burst_inv_next [OF assms(1)] show ?thesis
      by (simp add: Event)
  next
    case (RoomClose r)
    with assms(2) show ?thesis by (simp add: Event)
  next
    case (WorkerDied wk)
    have "e \<noteq> QueueNext" "\<forall>r. e \<noteq> RoomClose r"
      by (simp_all add: WorkerDied)
    note f = step_other_fields [OF this] step_other_handled [OF this(1)]
    have "queue (step env e (gw w)) = queue (gw w)"
      by (simp add: WorkerDied worker_emit_died_eq)
    then have "burst_inv env roomId w0 K (w\<lparr>gw := step env e (gw w)\<rparr>)"
      by (intro burst_inv_cong [OF assms(1)]) (simp_all add: f)
    then show ?thesis by (simp add: Event WorkerDied)
  next
    case (RestRequest req)
    have "e \<noteq> QueueNext" "\<forall>r. e \<noteq> RoomClose r"
      by (simp_all add: RestRequest)
    note f = step_other_fields [OF this] step_other_handled [OF this(1)]
    have "queue (step env e (gw w)) = queue (gw w)"
      by (simp add: RestRequest expressApp_fields)
    then have "burst_inv env roomId w0 K (w\<lparr>gw := step env e (gw w)\<rparr>)"
      by (intro burst_inv_cong [OF assms(1)]) (simp_all add: f)
    then show ?thesis by (simp add: Event RestRequest)
  qed
qed

lemma burst_inv_run:
  assumes "burst_inv env roomId w0 K w" and "list_all (burst_event roomId) evs"
  shows "burst_inv env roomId w0 (K + length (filter is_request evs)) (run_async env evs w)"
  using assms
proof (induction evs arbitrary: K w)
  case Nil
  then show ?case by simp
next
  case (Cons ev evs)
  from Cons.prems have ev: "burst_event roomId ev" and evs: "list_all (burst_event roomId) evs"
    by simp_all
  from Cons.IH [OF burst_inv_step [OF Cons.prems(1) ev] evs] show ?case
    by (cases "is_request ev") (simp_all add: ac_simps)
qed

lemma burst_inv_begin:
  assumes "awaiting w0 = None" and "queue (gw w0) = []" and "rooms (gw w0) (Str roomId) = None"
  shows "burst_inv env roomId w0 0 w0"
  using assms by (simp add: burst_inv_def pending_def)

lemma started_node_reachable: "async_reachable env_ok 2 started_node"
proof -
  have "[0..<2] = [0, Suc 0]"
    by (simp add: upt_conv_Cons)
  then have "run env_ok 2 = Inr started"
    by (simp add: run_def runMediasoupWorkers_def env_ok_def initial_def started_def)
  from async_reachable.async_started [OF this] show ?thesis
    by (simp add: started_node_def)
qed

lemma two_peers_burst_run:
  "liveRooms (run_async env_ok two_peers_burst started_node) = [room_A]"
  "handledRooms (effects (gw (run_async env_ok two_peers_burst started_node))) = [0, 0]"
  "roomCreateCalls (gw (run_async env_ok two_peers_burst started_node)) = 1"
  "awaiting (run_async env_ok two_peers_burst started_node) = None"
  "queue (gw (run_async env_ok two_peers_burst started_node)) = []"
  "rooms (gw (run_async env_ok two_peers_burst started_node)) (Str ''room-A'') = Some room_A"
  by (simp_all add: two_peers_burst_def connectionrequest_def unit_start_def unit_resume_def
        queuedUnit_def connectionTask_def getOrCreateRoom_def getMediasoupWorker_def joinRoom_def
        catchUnit_def Let_def started_node_def started_def env_ok_def alice_request_def
        bob_request_def room_A_def)

text \<open>
  The same array twice. Two requests \<open>/?roomId=&roomId=&peerId=alice\<close> name the
  same room identifier, but each has an array of its own as \<open>roomId\<close>, and the
  \<open>rooms\<close> Map compares arrays by identity: the second request finds no entry and
  a second Room is built for the identifier.
\<close>

lemma repeated_roomId_two_rooms:
  "map room_roomId (liveRooms (run_async env_ok repeated_roomId_burst started_node)) =
     [Arr 8 ['''', ''''], Arr 9 ['''', '''']]
   \<and> roomCreateCalls (gw (run_async env_ok repeated_roomId_burst started_node)) = 2
   \<and> handledRooms (effects (gw (run_async env_ok repeated_roomId_burst started_node))) = [0, 1]"
  by (simp add: repeated_roomId_burst_def connectionrequest_def unit_start_def unit_resume_def
        queuedUnit_def connectionTask_def getOrCreateRoom_def getMediasoupWorker_def joinRoom_def
        catchUnit_def Let_def started_node_def started_def env_ok_def repeated_request_def
        repeated_request_again_def)

text \<open>
  C1, as the claim states it, fails. Two requests for the unseen identifier
  \<open>room-A\<close> go through the queue, and the first \<open>Room.create\<close> rejects: the
  second unit finds no entry and calls \<open>Room.create\<close> again. Two Room
  constructions occur, the first call returns an error and only the second a room.
\<close>

theorem single_room_create_rejected_counterexample:
  "rooms (gw started_node) (Str ''room-A'') = None
   \<and> length (filter is_request (two_peers_burst @ [RoomCreateSettled])) = 2
   \<and> roomCreateCalls
        (gw (run_async env_first_create_fails (two_peers_burst @ [RoomCreateSettled])
               started_node)) = 2
   \<and> handledRooms
        (effects (gw (run_async env_first_create_fails (two_peers_burst @ [RoomCreateSettled])
                        started_node))) = [1]
   \<and> fst (getOrCreateRoom_serialized env_first_create_fails [Str ''room-A'', Str ''room-A'']
            started) =
       [Inl boom,
        Inr \<lparr>room_ref = 1, room_roomId = Str ''room-A'',
             room_mediasoupWorker = Some (Worker 101)\<rparr>]"
  by (simp add: two_peers_burst_def connectionrequest_def unit_start_def unit_resume_def
        queuedUnit_def connectionTask_def getOrCreateRoom_def getMediasoupWorker_def joinRoom_def
        catchUnit_def Let_def started_node_def started_def env_first_create_fails_def env_ok_def
        alice_request_def bob_request_def)

text \<open>
  C1, amended. In every node the gateway reaches (as long as a room signals closure
  only while it is live), no two live rooms have the same identifier, and every live
  room is the entry of its identifier in \<open>rooms\<close>. And let a burst of requests for
  the string \<open>roomId\<close> begin in such a node, with nothing suspended or pending and
  no entry for \<open>roomId\<close>: \<open>K\<close> requests that name \<open>roomId\<close> and a peer,
  arriving at any moment, also while a unit is suspended in \<open>Room.create\<close>, with
  the queue events, the settling of \<open>Room.create\<close>, REST requests and dying workers
  in any order, and no room closing. Then at every moment of the burst the node is a
  reachable one, and either there is no entry for \<open>roomId\<close>, no room has been added
  and no connection been handed over, or exactly one room has been added, it is the
  entry of \<open>roomId\<close>, and every connection handed over (at most \<open>K\<close>) went to
  that instance. If \<open>Room.create\<close> resolves for \<open>roomId\<close>, it has been called
  at most once. If moreover \<open>accept\<close> returns, \<open>K \<ge> 1\<close> and the burst is over
  (nothing is pending or suspended), then \<open>Room.create\<close> has been called exactly
  once and all \<open>K\<close> connections have been handed to that one instance.
\<close>

theorem single_room_per_identifier:
  assumes "async_reachable env numWorkers w0"
  shows "distinct (map room_roomId (liveRooms w0))
       \<and> (\<forall>room \<in> set (liveRooms w0). rooms (gw w0) (room_roomId room) = Some room)
       \<and> (awaiting w0 = None \<and> queue (gw w0) = [] \<and> rooms (gw w0) (Str roomId) = None \<and>
          list_all (burst_event roomId) evs \<longrightarrow>
            (let w = run_async env evs w0; K = length (filter is_request evs)
             in async_reachable env numWorkers w
              \<and> (rooms (gw w) (Str roomId) = None \<and> liveRooms w = liveRooms w0 \<and>
                  handledRooms (effects (gw w)) = handledRooms (effects (gw w0))
                  \<or> (\<exists>room k. k \<le> K \<and>
                        rooms (gw w) (Str roomId) = Some room \<and>
                        liveRooms w = liveRooms w0 @ [room] \<and>
                        room_roomId room = Str roomId \<and>
                        handledRooms (effects (gw w)) =
                          handledRooms (effects (gw w0)) @ replicate k (room_ref room)))
              \<and> ((\<forall>n mw. Room_create env n mw (Str roomId) = None) \<longrightarrow>
                    roomCreateCalls (gw w) \<le> roomCreateCalls (gw w0) + 1)
              \<and> ((\<forall>n mw. Room_create env n mw (Str roomId) = None) \<and>
                  (\<forall>c. accept env c = None) \<and>
                  awaiting w = None \<and> queue (gw w) = [] \<and> 0 < K \<longrightarrow>
                    roomCreateCalls (gw w) = roomCreateCalls (gw w0) + 1 \<and>
                    (\<exists>room. rooms (gw w) (Str roomId) = Some room \<and>
                       liveRooms w = liveRooms w0 @ [room] \<and>
                       handledRooms (effects (gw w)) =
                         handledRooms (effects (gw w0)) @ replicate K (room_ref room)))))"
proof -
  note ok = node_okD [OF async_reachable_node_ok [OF assms]]
  have one: "distinct (map room_roomId (liveRooms w0))"
    by (rule ok(1))
  have registered: "\<forall>room \<in> set (liveRooms w0). rooms (gw w0) (room_roomId room) = Some room"
    using ok(2) by blast
  define w where "w = run_async env evs w0"
  define K where "K = length (filter is_request evs)"
  have reach: "async_reachable env numWorkers w"
    unfolding w_def by (rule async_reachable_run_async [OF assms])
  have burst: "awaiting w0 = None \<and> queue (gw w0) = [] \<and> rooms (gw w0) (Str roomId) = None \<and>
          list_all (burst_event roomId) evs \<longrightarrow>
          async_reachable env numWorkers w
          \<and> (rooms (gw w) (Str roomId) = None \<and> liveRooms w = liveRooms w0 \<and>
                  handledRooms (effects (gw w)) = handledRooms (effects (gw w0))
                  \<or> (\<exists>room k. k \<le> K \<and>
                        rooms (gw w) (Str roomId) = Some room \<and>
                        liveRooms w = liveRooms w0 @ [room] \<and>
                        room_roomId room = Str roomId \<and>
                        handledRooms (effects (gw w)) =
                          handledRooms (effects (gw w0)) @ replicate k (room_ref room)))
              \<and> ((\<forall>n mw. Room_create env n mw (Str roomId) = None) \<longrightarrow>
                    roomCreateCalls (gw w) \<le> roomCreateCalls (gw w0) + 1)
              \<and> ((\<forall>n mw. Room_create env n mw (Str roomId) = None) \<and>
                  (\<forall>c. accept env c = None) \<and>
                  awaiting w = None \<and> queue (gw w) = [] \<and> 0 < K \<longrightarrow>
                    roomCreateCalls (gw w) = roomCreateCalls (gw w0) + 1 \<and>
                    (\<exists>room. rooms (gw w) (Str roomId) = Some room \<and>
                       liveRooms w = liveRooms w0 @ [room] \<and>
                       handledRooms (effects (gw w)) =
                         handledRooms (effects (gw w0)) @ replicate K (room_ref room)))"
    (is "?start \<longrightarrow> ?reach \<and> ?one \<and> ?once \<and> ?all")
  proof (intro impI, elim conjE)
    assume start: "awaiting w0 = None" "queue (gw w0) = []" "rooms (gw w0) (Str roomId) = None"
      and evs: "list_all (burst_event roomId) evs"
    from burst_inv_run [OF burst_inv_begin [OF start, of env] evs]
    have inv: "burst_inv env roomId w0 K w"
      by (simp add: w_def K_def)
    have "?one \<and> ?once \<and> ?all"
    proof (cases "rooms (gw w) (Str roomId)")
      case None
      with inv have same: "liveRooms w = liveRooms w0"
        "handledRooms (effects (gw w)) = handledRooms (effects (gw w0))"
        and count: "(\<forall>n mw. Room_create env n mw (Str roomId) = None) \<longrightarrow>
           roomCreateCalls (gw w) =
             roomCreateCalls (gw w0) + (if awaiting w = None then 0 else 1) \<and>
           ((\<forall>c. accept env c = None) \<longrightarrow> K = pending w)"
        by (simp_all add: burst_inv_def)
      from None same have "?one"
        by simp
      moreover from count have "?once"
        by simp
      moreover from count None have "?all"
        by (auto simp: pending_def)
      ultimately show ?thesis
        by (intro conjI)
    next
      case (Some room)
      with inv have live: "liveRooms w = liveRooms w0 @ [room]" "room_roomId room = Str roomId"
        and "\<exists>k. pending w + k \<le> K \<and>
           handledRooms (effects (gw w)) =
             handledRooms (effects (gw w0)) @ replicate k (room_ref room) \<and>
           ((\<forall>n mw. Room_create env n mw (Str roomId) = None) \<longrightarrow>
              roomCreateCalls (gw w) = roomCreateCalls (gw w0) + 1 \<and>
              ((\<forall>c. accept env c = None) \<longrightarrow> K = pending w + k))"
        by (simp_all add: burst_inv_def)
      then obtain k where k: "pending w + k \<le> K"
        "handledRooms (effects (gw w)) =
           handledRooms (effects (gw w0)) @ replicate k (room_ref room)"
        "(\<forall>n mw. Room_create env n mw (Str roomId) = None) \<longrightarrow>
           roomCreateCalls (gw w) = roomCreateCalls (gw w0) + 1 \<and>
           ((\<forall>c. accept env c = None) \<longrightarrow> K = pending w + k)"
        by (elim exE conjE)
      have "k \<le> K"
        using k(1) by simp
      then have "k \<le> K \<and>
                        rooms (gw w) (Str roomId) = Some room \<and>
                        liveRooms w = liveRooms w0 @ [room] \<and>
                        room_roomId room = Str roomId \<and>
                        handledRooms (effects (gw w)) =
                          handledRooms (effects (gw w0)) @ replicate k (room_ref room)"
        using Some live k(2) by (intro conjI)
      then have "?one"
        by (intro disjI2 exI)
      moreover have "?once"
        using k(3) by simp
      moreover have "?all"
      proof (intro impI, elim conjE)
        assume "\<forall>n mw. Room_create env n mw (Str roomId) = None" "\<forall>c. accept env c = None"
          "awaiting w = None" "queue (gw w) = []"
        with k(3) have "roomCreateCalls (gw w) = roomCreateCalls (gw w0) + 1" "K = k"
          by (simp_all add: pending_def)
        with Some live(1) k(2) show "roomCreateCalls (gw w) = roomCreateCalls (gw w0) + 1 \<and>
                    (\<exists>room. rooms (gw w) (Str roomId) = Some room \<and>
                       liveRooms w = liveRooms w0 @ [room] \<and>
                       handledRooms (effects (gw w)) =
                         handledRooms (effects (gw w0)) @ replicate K (room_ref room))"
          by simp
      qed
      ultimately show ?thesis
        by (intro conjI)
    qed
    with reach show "?reach \<and> ?one \<and> ?once \<and> ?all"
      by (intro conjI) blast+
  qed
  from one registered burst show ?thesis
    unfolding Let_def w_def K_def by (intro conjI)
qed

theorem single_room_per_identifier_witness:
  "liveRooms (run_async env_ok two_peers_burst started_node) = [room_A]
   \<and> handledRooms (effects (gw (run_async env_ok two_peers_burst started_node))) = [0, 0]
   \<and> roomCreateCalls (gw (run_async env_ok two_peers_burst started_node)) = 1"
proof -
  have start: "awaiting started_node = None" "queue (gw started_node) = []"
    "rooms (gw started_node) (Str ''room-A'') = None"
    "liveRooms started_node = []" "handledRooms (effects (gw started_node)) = []"
    "roomCreateCalls (gw started_node) = 0"
    by (simp_all add: started_node_def started_def)
  have evs: "list_all (burst_event ''room-A'') two_peers_burst"
    "length (filter is_request two_peers_burst) = 2"
    by (simp_all add: two_peers_burst_def alice_request_def bob_request_def)
  have env: "\<forall>n mw. Room_create env_ok n mw (Str ''room-A'') = None" "\<forall>c. accept env_ok c = None"
    by (simp_all add: env_ok_def)
  have two: "replicate 2 x = [x, x]" for x :: "'a"
    by (simp add: numeral_2_eq_2)
  from single_room_per_identifier [OF started_node_reachable, of "''room-A''" two_peers_burst]
  show ?thesis
    by (simp add: start evs env two two_peers_burst_run Let_def)
qed

end
